theory Spec2Isabelle
  imports Complex_Main "HOL-Library.Multiset"
begin

section \<open>JavaScript numbers\<close>

text \<open>
  The calculator (services/calculator) works on JavaScript numbers, that is on binary64
  floating point.  A number is modelled as a real (the value of a finite double) or one of
  the three special values.  The result of an operation on finite operands is the exact
  real result passed through the rounding of the arithmetic, which may change the value,
  overflow to an infinity or underflow to zero.  The rounding is a parameter of the model:
  \<open>rnd\<close> for the four basic operations and for reading a decimal literal (which IEEE 754
  and ECMAScript define as the exact result rounded), and \<open>fsqrt\<close>, \<open>flog\<close>, \<open>fexp\<close> for
  \<open>Math.sqrt\<close>, \<open>Math.log\<close> and \<open>Math.exp\<close> (which ECMAScript leaves to the implementation,
  apart from the results it fixes at the special arguments).  Every property below is proved
  for every such arithmetic, or for every arithmetic with the properties \<open>sound_fp\<close>
  that binary64 has; none is proved from exactness of the operations.

  The sign of zero is not modelled.  A zero divisor behaves as \<open>+0\<close>; every zero divisor
  that can occur in the calculator is a difference of two equal numbers or a positive
  quantity that underflowed, hence \<open>+0\<close>.
\<close>

datatype jsnum = Fin real | PInf | NInf | NaN

record fpu =
  rnd :: "real \<Rightarrow> jsnum"
  fsqrt :: "real \<Rightarrow> jsnum"
  flog :: "real \<Rightarrow> jsnum"
  fexp :: "real \<Rightarrow> jsnum"

fun isFinite :: "jsnum \<Rightarrow> bool" where
  "isFinite (Fin a) = True"
| "isFinite PInf = False"
| "isFinite NInf = False"
| "isFinite NaN = False"

fun jneg :: "jsnum \<Rightarrow> jsnum" where
  "jneg (Fin a) = Fin (- a)"
| "jneg PInf = NInf"
| "jneg NInf = PInf"
| "jneg NaN = NaN"

fun jadd :: "fpu \<Rightarrow> jsnum \<Rightarrow> jsnum \<Rightarrow> jsnum" where
  "jadd fp (Fin a) (Fin b) = rnd fp (a + b)"
| "jadd fp (Fin a) PInf = PInf"
| "jadd fp (Fin a) NInf = NInf"
| "jadd fp PInf (Fin b) = PInf"
| "jadd fp PInf PInf = PInf"
| "jadd fp PInf NInf = NaN"
| "jadd fp NInf (Fin b) = NInf"
| "jadd fp NInf PInf = NaN"
| "jadd fp NInf NInf = NInf"
| "jadd fp NaN y = NaN"
| "jadd fp x NaN = NaN"

definition jsub :: "fpu \<Rightarrow> jsnum \<Rightarrow> jsnum \<Rightarrow> jsnum" where
  "jsub fp x y = jadd fp x (jneg y)"

fun jmul :: "fpu \<Rightarrow> jsnum \<Rightarrow> jsnum \<Rightarrow> jsnum" where
  "jmul fp (Fin a) (Fin b) = rnd fp (a * b)"
| "jmul fp (Fin a) PInf = (if a = 0 then NaN else if 0 < a then PInf else NInf)"
| "jmul fp (Fin a) NInf = (if a = 0 then NaN else if 0 < a then NInf else PInf)"
| "jmul fp PInf (Fin b) = (if b = 0 then NaN else if 0 < b then PInf else NInf)"
| "jmul fp NInf (Fin b) = (if b = 0 then NaN else if 0 < b then NInf else PInf)"
| "jmul fp PInf PInf = PInf"
| "jmul fp PInf NInf = NInf"
| "jmul fp NInf PInf = NInf"
| "jmul fp NInf NInf = PInf"
| "jmul fp NaN y = NaN"
| "jmul fp x NaN = NaN"

fun jdiv :: "fpu \<Rightarrow> jsnum \<Rightarrow> jsnum \<Rightarrow> jsnum" where
  "jdiv fp (Fin a) (Fin b) =
     (if b = 0 then (if a = 0 then NaN else if 0 < a then PInf else NInf) else rnd fp (a / b))"
| "jdiv fp (Fin a) PInf = Fin 0"
| "jdiv fp (Fin a) NInf = Fin 0"
| "jdiv fp PInf (Fin b) = (if 0 \<le> b then PInf else NInf)"
| "jdiv fp NInf (Fin b) = (if 0 \<le> b then NInf else PInf)"
| "jdiv fp PInf PInf = NaN"
| "jdiv fp PInf NInf = NaN"
| "jdiv fp NInf PInf = NaN"
| "jdiv fp NInf NInf = NaN"
| "jdiv fp NaN y = NaN"
| "jdiv fp x NaN = NaN"

text \<open>The relational operators (less, less or equal, greater, greater or equal) and strict equality: false whenever an operand is NaN.\<close>

fun jlt :: "jsnum \<Rightarrow> jsnum \<Rightarrow> bool" where
  "jlt (Fin a) (Fin b) = (a < b)"
| "jlt (Fin a) PInf = True"
| "jlt NInf (Fin b) = True"
| "jlt NInf PInf = True"
| "jlt x y = False"

fun jle :: "jsnum \<Rightarrow> jsnum \<Rightarrow> bool" where
  "jle (Fin a) (Fin b) = (a \<le> b)"
| "jle (Fin a) PInf = True"
| "jle NInf (Fin b) = True"
| "jle NInf PInf = True"
| "jle PInf PInf = True"
| "jle NInf NInf = True"
| "jle x y = False"

definition jgt :: "jsnum \<Rightarrow> jsnum \<Rightarrow> bool" where
  "jgt x y = jlt y x"

definition jge :: "jsnum \<Rightarrow> jsnum \<Rightarrow> bool" where
  "jge x y = jle y x"

definition jeq :: "jsnum \<Rightarrow> jsnum \<Rightarrow> bool" where
  "jeq x y = (x \<noteq> NaN \<and> x = y)"

text \<open>\<open>a || b\<close> on numbers: \<open>b\<close> when \<open>a\<close> is falsy, that is NaN or zero.\<close>

definition jsor :: "jsnum \<Rightarrow> jsnum \<Rightarrow> jsnum" where
  "jsor a b = (if a = NaN \<or> a = Fin 0 then b else a)"

text \<open>
  \<open>Math.abs\<close> and \<open>Math.max\<close> are exact.  \<open>Math.sqrt\<close>, \<open>Math.log\<close> and \<open>Math.exp\<close> have the
  results ECMAScript fixes (the square root of zero is zero, the logarithm of one is zero,
  the exponential of zero is one, and the special arguments) and are otherwise the
  implementation's approximation.
\<close>

fun jabs :: "jsnum \<Rightarrow> jsnum" where
  "jabs (Fin a) = Fin \<bar>a\<bar>"
| "jabs PInf = PInf"
| "jabs NInf = PInf"
| "jabs NaN = NaN"

definition jmax :: "jsnum \<Rightarrow> jsnum \<Rightarrow> jsnum" where
  "jmax x y = (if x = NaN \<or> y = NaN then NaN else if jlt x y then y else x)"

fun jsqrt :: "fpu \<Rightarrow> jsnum \<Rightarrow> jsnum" where
  "jsqrt fp (Fin a) = (if a < 0 then NaN else if a = 0 then Fin 0 else fsqrt fp a)"
| "jsqrt fp PInf = PInf"
| "jsqrt fp NInf = NaN"
| "jsqrt fp NaN = NaN"

fun jlog :: "fpu \<Rightarrow> jsnum \<Rightarrow> jsnum" where
  "jlog fp (Fin a) =
     (if a < 0 then NaN else if a = 0 then NInf else if a = 1 then Fin 0 else flog fp a)"
| "jlog fp PInf = PInf"
| "jlog fp NInf = NaN"
| "jlog fp NaN = NaN"

fun jexp :: "fpu \<Rightarrow> jsnum \<Rightarrow> jsnum" where
  "jexp fp (Fin a) = (if a = 0 then Fin 1 else fexp fp a)"
| "jexp fp PInf = PInf"
| "jexp fp NInf = Fin 0"
| "jexp fp NaN = NaN"

text \<open>
  Reading an array element: an index past the end gives \<open>undefined\<close>, which every use in
  the calculator (arithmetic, comparison) converts to NaN.
\<close>

definition jsnth :: "jsnum list \<Rightarrow> nat \<Rightarrow> jsnum" where
  "jsnth xs i = (if i < length xs then xs ! i else NaN)"

text \<open>
  The numeric literals of the source that are not integers, and \<open>Math.PI\<close>, are the doubles
  nearest to the decimal written; their exact values are the following fractions.
\<close>

definition lit_1_204 :: real where
  "lit_1_204 = 5422333951354077 / 2 ^ 52"

definition lit_2_54 :: real where
  "lit_2_54 = 2859785763380265 / 2 ^ 50"

definition lit_1em12 :: real where
  "lit_1em12 = 4951760157141521 / 2 ^ 92"

definition Math_PI :: real where
  "Math_PI = 884279719003555 / 2 ^ 48"

subsection \<open>The built-in parseFloat\<close>

text \<open>
  \<open>parseFloat\<close> is the ECMAScript built-in: it skips leading white space and reads the
  longest prefix that is a StrDecimalLiteral (an optional sign, then \<open>Infinity\<close> or decimal
  digits with an optional fraction and an optional exponent); NaN when there is none.
  The value is the decimal value rounded to a double, so a literal too large for a double
  gives an infinity and one too small gives zero.

  A string is the list of the bytes of its UTF-8 encoding.  White space is what
  ECMAScript's StrWhiteSpaceChar is: tab, line feed, vertical tab, form feed, carriage
  return, space, U+00A0, U+1680, U+2000 to U+200A, U+2028, U+2029, U+202F, U+205F, U+3000
  and U+FEFF.  \<open>whiteSpaceLength\<close> is the number of bytes of the white space character
  that the string starts with, 0 when it starts with none.
\<close>

definition whiteSpaceLength :: "string \<Rightarrow> nat" where
  "whiteSpaceLength s =
     (let b = map of_char s :: nat list in
      if b \<noteq> [] \<and> hd b \<in> {9, 10, 11, 12, 13, 32} then 1
      else if take 2 b = [194, 160] then 2
      else if take 3 b = [225, 154, 128] then 3
      else if take 2 b = [226, 128] \<and> 3 \<le> length b \<and>
              (b ! 2 \<in> {128 ..< 139} \<or> b ! 2 \<in> {168, 169, 175}) then 3
      else if take 3 b = [226, 129, 159] then 3
      else if take 3 b = [227, 128, 128] then 3
      else if take 3 b = [239, 187, 191] then 3
      else 0)"

function skipWhiteSpace :: "string \<Rightarrow> string" where
  "skipWhiteSpace s =
     (if whiteSpaceLength s = 0 \<or> s = [] then s else skipWhiteSpace (drop (whiteSpaceLength s) s))"
  by pat_completeness auto
termination
  by (relation "measure length") auto

definition isDigit :: "char \<Rightarrow> bool" where
  "isDigit c = (48 \<le> (of_char c :: nat) \<and> (of_char c :: nat) \<le> 57)"

definition digitsValue :: "string \<Rightarrow> nat" where
  "digitsValue ds = foldl (\<lambda>acc c. 10 * acc + (of_char c - 48)) 0 ds"

definition parseExponent :: "string \<Rightarrow> int" where
  "parseExponent s =
     (case s of
        [] \<Rightarrow> 0
      | c # cs \<Rightarrow>
          if c = CHR ''e'' \<or> c = CHR ''E'' then
            (case cs of
               [] \<Rightarrow> 0
             | d # ds \<Rightarrow>
                 if d = CHR ''-'' then
                   (if takeWhile isDigit ds = [] then 0 else - int (digitsValue (takeWhile isDigit ds)))
                 else if d = CHR ''+'' then
                   (if takeWhile isDigit ds = [] then 0 else int (digitsValue (takeWhile isDigit ds)))
                 else int (digitsValue (takeWhile isDigit cs)))
          else 0)"

definition scale10 :: "real \<Rightarrow> int \<Rightarrow> real" where
  "scale10 m e = (if 0 \<le> e then m * 10 ^ nat e else m / 10 ^ nat (- e))"

text \<open>The unsigned literal at the start of a string: none, \<open>Infinity\<close>, or a decimal with its exact value.\<close>

datatype literal = NoLiteral | InfinityLiteral | Decimal real

definition parseUnsigned :: "string \<Rightarrow> literal" where
  "parseUnsigned s =
     (if take 8 s = ''Infinity'' then InfinityLiteral
      else
        (let ip = takeWhile isDigit s;
             r1 = dropWhile isDigit s;
             hasDot = (case r1 of [] \<Rightarrow> False | c # cs \<Rightarrow> c = CHR ''.'');
             fr = (if hasDot then takeWhile isDigit (tl r1) else []);
             r2 = (if hasDot then dropWhile isDigit (tl r1) else r1)
         in if ip = [] \<and> fr = [] then NoLiteral
            else Decimal (scale10 (real (digitsValue (ip @ fr)) / 10 ^ length fr) (parseExponent r2))))"

definition numberOf :: "fpu \<Rightarrow> bool \<Rightarrow> literal \<Rightarrow> jsnum" where
  "numberOf fp negative l =
     (case l of
        NoLiteral \<Rightarrow> NaN
      | InfinityLiteral \<Rightarrow> (if negative then NInf else PInf)
      | Decimal v \<Rightarrow> rnd fp (if negative then - v else v))"

definition parseFloat :: "fpu \<Rightarrow> string \<Rightarrow> jsnum" where
  "parseFloat fp s =
     (case skipWhiteSpace s of
        [] \<Rightarrow> NaN
      | c # cs \<Rightarrow>
          if c = CHR ''-'' then numberOf fp True (parseUnsigned cs)
          else if c = CHR ''+'' then numberOf fp False (parseUnsigned cs)
          else numberOf fp False (parseUnsigned (c # cs)))"

section \<open>Data model (types.ts)\<close>

record RowData =
  row_id :: string
  row_r :: string
  row_dp :: string

record StationData =
  st_id :: string
  st_xd :: string
  st_variac :: string
  st_port1 :: string
  st_rows :: "RowData list"

datatype pUnits = Kpa | Pa

record GlobalSettings =
  gs_rho :: string
  gs_Dcm :: string
  gs_pUnits :: pUnits
  gs_contraction :: string
  gs_showSteps :: bool

text \<open>
  Of a ComputedRow the numeric fields are modelled; \<open>psteps\<close>, like every CalculationStep
  and TrapezoidSegment of the trace, is a display copy of values computed elsewhere
  (formatted with \<open>pretty\<close>) and is left out.
\<close>

record ComputedRow =
  cr_r :: jsnum
  cr_dpPa :: jsnum
  cr_u :: jsnum

record CollapsedPoint =
  cp_xr :: jsnum
  cp_ur :: jsnum

text \<open>
  The warning strings of the trace, with the numbers they interpolate kept as numbers:
  \<open>DuplicateR r\<close> is "Duplicate r at r m.", \<open>NonMonotonic r u0 u1\<close> is "Non-monotonic
  velocity profile detected near r=... (u increases from u0 to u1).",
  \<open>CannotExtrapolateUc\<close> is "Cannot extrapolate Uc, not enough data points with r>0.",
  \<open>NoCrossing\<close> is "Could not determine r1/2 (no crossing of Uc/2)." and
  \<open>TailSkipped\<close> is "Tail correction for integrals skipped (Uc or r1/2 not available).".
\<close>

datatype warning =
    DuplicateR jsnum
  | NonMonotonic jsnum jsnum jsnum
  | CannotExtrapolateUc
  | NoCrossing
  | TailSkipped

record Trace =
  warnings :: "warning list"

record ComputedStation =
  cs_id :: string
  cs_xd :: jsnum
  cs_variac :: jsnum
  cs_port1 :: jsnum
  cs_D :: jsnum
  cs_rho :: jsnum
  cs_unitIsKPa :: bool
  cs_rows :: "ComputedRow list"
  cs_trace :: Trace
  cs_Uc :: jsnum
  cs_rHalf :: jsnum
  cs_mdot :: jsnum
  cs_I :: jsnum
  cs_collapse :: "CollapsedPoint list"
  cs_rmse :: jsnum

record ComputedResults =
  globals :: GlobalSettings
  results :: "ComputedStation list"

section \<open>The calculator (services/calculator)\<close>

definition mm2m :: "fpu \<Rightarrow> jsnum \<Rightarrow> jsnum" where
  "mm2m fp v = jdiv fp v (Fin 1000)"

definition cm2m :: "fpu \<Rightarrow> jsnum \<Rightarrow> jsnum" where
  "cm2m fp v = jdiv fp v (Fin 100)"

definition kPa2Pa :: "fpu \<Rightarrow> jsnum \<Rightarrow> jsnum" where
  "kPa2Pa fp v = jmul fp v (Fin 1000)"

definition mkTrace :: Trace where
  "mkTrace = \<lparr>warnings = []\<rparr>"

definition pushWarn :: "Trace \<Rightarrow> warning \<Rightarrow> Trace" where
  "pushWarn T msg = T\<lparr>warnings := warnings T @ [msg]\<rparr>"

subsection \<open>interpolateRhalf\<close>

text \<open>
  The function writes to the trace only CalculationSteps (into \<open>trace.rhalf\<close>), which are
  left out, so the model takes no trace.
\<close>

record TPoint =
  p_r2 :: jsnum
  p_lnu :: jsnum

definition transformed :: "fpu \<Rightarrow> jsnum list \<Rightarrow> jsnum list \<Rightarrow> TPoint list" where
  "transformed fp r u =
     filter (\<lambda>p. isFinite (p_lnu p))
       (map (\<lambda>i. \<lparr>p_r2 = jmul fp (r ! i) (r ! i),
                  p_lnu = (if jgt (jsnth u i) (Fin 0) then jlog fp (jsnth u i) else NInf)\<rparr>)
            [0..<length r])"

text \<open>The first loop, from index \<open>i\<close>: \<open>Some\<close> is the value returned inside the loop.\<close>

function logScan :: "fpu \<Rightarrow> TPoint list \<Rightarrow> jsnum \<Rightarrow> nat \<Rightarrow> jsnum option" where
  "logScan fp tr target_lnu i =
     (if i + 1 < length tr then
        (let p1 = tr ! i; p2 = tr ! (i + 1) in
         if jge (p_lnu p1) target_lnu \<and> jle (p_lnu p2) target_lnu then
           (let t = jdiv fp (jsub fp target_lnu (p_lnu p1)) (jsub fp (p_lnu p2) (p_lnu p1));
                r2_half = jadd fp (p_r2 p1) (jmul fp t (jsub fp (p_r2 p2) (p_r2 p1)));
                rHalf = jsqrt fp r2_half
            in Some rHalf)
         else logScan fp tr target_lnu (i + 1))
      else None)"
  by pat_completeness auto
termination
  by (relation "measure (\<lambda>(fp, tr, target_lnu, i). length tr - i)") auto

text \<open>The fallback loop over \<open>u\<close> and \<open>r\<close>.\<close>

function linScan :: "fpu \<Rightarrow> jsnum list \<Rightarrow> jsnum list \<Rightarrow> jsnum \<Rightarrow> nat \<Rightarrow> jsnum option" where
  "linScan fp r u target_u i =
     (if i + 1 < length u then
        (let u1 = jsnth u i; u2 = jsnth u (i + 1) in
         if jge u1 target_u \<and> jle u2 target_u then
           (let t = jdiv fp (jsub fp target_u u1) (jsub fp u2 u1);
                rHalf = jadd fp (jsnth r i) (jmul fp t (jsub fp (jsnth r (i + 1)) (jsnth r i)))
            in Some rHalf)
         else linScan fp r u target_u (i + 1))
      else None)"
  by pat_completeness auto
termination
  by (relation "measure (\<lambda>(fp, r, u, target_u, i). length u - i)") auto

definition interpolateRhalf :: "fpu \<Rightarrow> jsnum list \<Rightarrow> jsnum list \<Rightarrow> jsnum \<Rightarrow> jsnum" where
  "interpolateRhalf fp r u Uc =
     (if jle Uc (Fin 0) then NaN
      else
        (let target_u = jdiv fp Uc (Fin 2);
             tr = transformed fp r u;
             target_lnu = jlog fp target_u
         in case logScan fp tr target_lnu 0 of
              Some rHalf \<Rightarrow> rHalf
            | None \<Rightarrow>
                (case linScan fp r u target_u 0 of
                   Some rHalf \<Rightarrow> rHalf
                 | None \<Rightarrow> NaN)))"

subsection \<open>computeAll\<close>

text \<open>
  The objects \<open>{ rmm, dpIn }\<close> of \<open>parsedRows\<close>, the map and filter that build them, and the
  callback that turns one of them into a computed row.
\<close>

record ParsedRow =
  pr_rmm :: jsnum
  pr_dpIn :: jsnum

definition parseRows :: "fpu \<Rightarrow> StationData \<Rightarrow> ParsedRow list" where
  "parseRows fp st =
     filter (\<lambda>p. isFinite (pr_rmm p) \<and> isFinite (pr_dpIn p))
       (map (\<lambda>row. \<lparr>pr_rmm = parseFloat fp (row_r row), pr_dpIn = parseFloat fp (row_dp row)\<rparr>)
            (st_rows st))"

definition deriveRow :: "fpu \<Rightarrow> jsnum \<Rightarrow> bool \<Rightarrow> ParsedRow \<Rightarrow> ComputedRow" where
  "deriveRow fp rho unitIsKPa p =
     (let dpPa = (if unitIsKPa then kPa2Pa fp (pr_dpIn p) else pr_dpIn p);
          u = jsqrt fp (jmax (Fin 0) (jdiv fp (jmul fp (Fin 2) dpPa) rho))
      in \<lparr>cr_r = mm2m fp (pr_rmm p), cr_dpPa = dpPa, cr_u = u\<rparr>)"

text \<open>
  \<open>computedRows.sort((a, b) => a.r - b.r)\<close>: Array.prototype.sort is stable, and \<open>b\<close> goes
  before \<open>a\<close> exactly when the comparator is positive.  In binary64 the radii are finite
  and the difference of two doubles is positive exactly when the first is the larger, so
  the comparator is consistent and the result is the stable ascending arrangement, built
  here by insertion.
\<close>

fun insertRow :: "fpu \<Rightarrow> ComputedRow \<Rightarrow> ComputedRow list \<Rightarrow> ComputedRow list" where
  "insertRow fp a [] = [a]"
| "insertRow fp a (b # bs) =
     (if jgt (jsub fp (cr_r a) (cr_r b)) (Fin 0) then b # insertRow fp a bs else a # b # bs)"

definition sortRows :: "fpu \<Rightarrow> ComputedRow list \<Rightarrow> ComputedRow list" where
  "sortRows fp rows = foldr (insertRow fp) rows []"

text \<open>The loop that warns about duplicate radii and non-monotonic velocities.\<close>

function checkRows :: "ComputedRow list \<Rightarrow> nat \<Rightarrow> Trace \<Rightarrow> Trace" where
  "checkRows rows i T =
     (if i < length rows then
        (let T1 = (if jeq (cr_r (rows ! i)) (cr_r (rows ! (i - 1)))
                   then pushWarn T (DuplicateR (cr_r (rows ! i))) else T);
             T2 = (if jgt (cr_u (rows ! i)) (cr_u (rows ! (i - 1)))
                   then pushWarn T1 (NonMonotonic (cr_r (rows ! i)) (cr_u (rows ! (i - 1))) (cr_u (rows ! i)))
                   else T1)
         in checkRows rows (i + 1) T2)
      else T)"
  by pat_completeness auto
termination
  by (relation "measure (\<lambda>(rows, i, T). length rows - i)") auto

text \<open>Centerline velocity: the three branches, with the trace passed through.\<close>

definition centerline :: "fpu \<Rightarrow> jsnum list \<Rightarrow> jsnum list \<Rightarrow> Trace \<Rightarrow> jsnum \<times> Trace" where
  "centerline fp r u T =
     (if jeq (jsnth r 0) (Fin 0) then (jsnth u 0, T)
      else if 2 \<le> length r then
        (let r1 = jsnth r 0; u1 = jsnth u 0; r2 = jsnth r 1; u2 = jsnth u 1;
             r1_sq = jmul fp r1 r1;
             r2_sq = jmul fp r2 r2
         in if jlt (jabs (jsub fp r1_sq r2_sq)) (Fin lit_1em12) then
              (jadd fp u1 (jdiv fp (jmul fp (jsub fp u2 u1) (jsub fp (Fin 0) r1)) (jsub fp r2 r1)), T)
            else
              (let a = jdiv fp (jsub fp u1 u2) (jsub fp r1_sq r2_sq)
               in (jsub fp u1 (jmul fp a r1_sq), T)))
      else (jsor (jsnth u 0) NaN, pushWarn T CannotExtrapolateUc))"

text \<open>The trapezoid loop, accumulating both areas.\<close>

function trapzLoop ::
  "fpu \<Rightarrow> jsnum list \<Rightarrow> jsnum list \<Rightarrow> jsnum list \<Rightarrow> nat \<Rightarrow> jsnum \<Rightarrow> jsnum \<Rightarrow> jsnum \<times> jsnum" where
  "trapzLoop fp r f g i area_f area_g =
     (if i + 1 < length r then
        (let dr = jsub fp (jsnth r (i + 1)) (jsnth r i);
             Af = jmul fp (jmul fp (Fin (1 / 2)) (jadd fp (jsnth f i) (jsnth f (i + 1)))) dr;
             Ag = jmul fp (jmul fp (Fin (1 / 2)) (jadd fp (jsnth g i) (jsnth g (i + 1)))) dr
         in trapzLoop fp r f g (i + 1) (jadd fp area_f Af) (jadd fp area_g Ag))
      else (area_f, area_g))"
  by pat_completeness auto
termination
  by (relation "measure (\<lambda>(fp, r, f, g, i, area_f, area_g). length r - i)") auto

text \<open>The tail corrections and the sum of squared errors, as functions of what they read.\<close>

definition tail_mdot :: "fpu \<Rightarrow> jsnum \<Rightarrow> jsnum \<Rightarrow> jsnum \<Rightarrow> jsnum \<Rightarrow> jsnum" where
  "tail_mdot fp rho Uc B r_n =
     jmul fp (jdiv fp (jmul fp (jmul fp (Fin Math_PI) rho) Uc) B)
             (jexp fp (jmul fp (jmul fp (jneg B) r_n) r_n))"

definition tail_I :: "fpu \<Rightarrow> jsnum \<Rightarrow> jsnum \<Rightarrow> jsnum \<Rightarrow> jsnum \<Rightarrow> jsnum" where
  "tail_I fp rho Uc B r_n =
     jmul fp (jdiv fp (jmul fp (jmul fp (jmul fp (Fin Math_PI) rho) Uc) Uc) (jmul fp (Fin 2) B))
             (jexp fp (jmul fp (jmul fp (jmul fp (Fin (- 2)) B) r_n) r_n))"

definition sumSqErr :: "fpu \<Rightarrow> CollapsedPoint list \<Rightarrow> jsnum" where
  "sumSqErr fp collapse =
     foldl (\<lambda>sum p.
              let gaussian_ur = jexp fp (jmul fp (jmul fp (jneg (jlog fp (Fin 2))) (cp_xr p)) (cp_xr p));
                  err = jsub fp (cp_ur p) gaussian_ur
              in jadd fp sum (jmul fp err err))
           (Fin 0) collapse"

text \<open>The body of the \<open>stations.map\<close> callback; \<open>None\<close> is the callback's \<open>null\<close>.\<close>

definition computeStation ::
  "fpu \<Rightarrow> jsnum \<Rightarrow> jsnum \<Rightarrow> bool \<Rightarrow> StationData \<Rightarrow> ComputedStation option" where
  "computeStation fp rho D unitIsKPa st =
     (let xd = parseFloat fp (st_xd st) in
      if \<not> isFinite xd then None
      else
        (let trace = mkTrace;
             parsedRows = parseRows fp st
         in if length parsedRows < 2 then None
            else
              (let computedRows = sortRows fp (map (deriveRow fp rho unitIsKPa) parsedRows);
                   trace1 = checkRows computedRows 1 trace;
                   r = map cr_r computedRows;
                   u = map cr_u computedRows;
                   Uc = fst (centerline fp r u trace1);
                   trace2 = snd (centerline fp r u trace1);
                   rHalf0 = interpolateRhalf fp r u Uc;
                   rHalf = (if \<not> isFinite rHalf0 then NaN else rHalf0);
                   trace3 = (if \<not> isFinite rHalf0 then pushWarn trace2 NoCrossing else trace2);
                   f = map (\<lambda>i. jmul fp (jmul fp rho (jsnth u i)) (r ! i)) [0..<length r];
                   g = map (\<lambda>i. jmul fp (jmul fp (jmul fp rho (jsnth u i)) (jsnth u i)) (r ! i))
                           [0..<length r];
                   areas = trapzLoop fp r f g 0 (Fin 0) (Fin 0);
                   mdot_trapz = jmul fp (jmul fp (Fin 2) (Fin Math_PI)) (fst areas);
                   I_trapz = jmul fp (jmul fp (Fin 2) (Fin Math_PI)) (snd areas);
                   tailOK = (isFinite Uc \<and> isFinite rHalf \<and> jgt rHalf (Fin 0) \<and> 0 < length r);
                   B = jdiv fp (jlog fp (Fin 2)) (jmul fp rHalf rHalf);
                   r_n = jsnth r (length r - 1);
                   mdot = (if tailOK then jadd fp mdot_trapz (tail_mdot fp rho Uc B r_n) else mdot_trapz);
                   I = (if tailOK then jadd fp I_trapz (tail_I fp rho Uc B r_n) else I_trapz);
                   trace4 = (if tailOK then trace3 else pushWarn trace3 TailSkipped);
                   collapse = (if isFinite rHalf \<and> jgt rHalf (Fin 0)
                               then map (\<lambda>i. \<lparr>cp_xr = jdiv fp (r ! i) rHalf,
                                              cp_ur = jdiv fp (jsnth u i) Uc\<rparr>)
                                        [0..<length r]
                               else []);
                   rmse = (if 0 < length collapse
                           then jsqrt fp (jdiv fp (sumSqErr fp collapse) (Fin (real (length collapse))))
                           else NaN)
               in Some \<lparr>cs_id = st_id st, cs_xd = xd,
                         cs_variac = parseFloat fp (st_variac st), cs_port1 = parseFloat fp (st_port1 st),
                         cs_D = D, cs_rho = rho, cs_unitIsKPa = unitIsKPa,
                         cs_rows = computedRows, cs_trace = trace4,
                         cs_Uc = Uc, cs_rHalf = rHalf, cs_mdot = mdot, cs_I = I,
                         cs_collapse = collapse, cs_rmse = rmse\<rparr>)))"

text \<open>The constants \<open>rho\<close> and \<open>D\<close> that \<open>computeAll\<close> derives from the settings, and \<open>computeAll\<close>.\<close>

definition usedRho :: "fpu \<Rightarrow> GlobalSettings \<Rightarrow> jsnum" where
  "usedRho fp g = jsor (parseFloat fp (gs_rho g)) (Fin lit_1_204)"

definition usedD :: "fpu \<Rightarrow> GlobalSettings \<Rightarrow> jsnum" where
  "usedD fp g = cm2m fp (jsor (parseFloat fp (gs_Dcm g)) (Fin lit_2_54))"

definition computeAll :: "fpu \<Rightarrow> StationData list \<Rightarrow> GlobalSettings \<Rightarrow> ComputedResults" where
  "computeAll fp stations g =
     (let rho = usedRho fp g;
          D = usedD fp g;
          unitIsKPa = (gs_pUnits g = Kpa);
          computedStations = List.map_filter (computeStation fp rho D unitIsKPa) stations
      in \<lparr>globals = g, results = computedStations\<rparr>)"


section \<open>Definitions used to state the properties\<close>

subsection \<open>What is assumed of the arithmetic\<close>

text \<open>
  Properties of binary64 round-to-nearest that some of the results need: rounding keeps
  the sign of a number (so it maps zero to zero and never gives NaN), the difference of two
  distinct doubles does not round to zero, and the square root of a positive number is not
  negative and not NaN.  Nothing is assumed about accuracy, overflow or underflow.
\<close>

definition sound_fp :: "fpu \<Rightarrow> bool" where
  "sound_fp fp =
     ((\<forall>x. 0 \<le> x \<longrightarrow> jle (Fin 0) (rnd fp x)) \<and>
      (\<forall>x. x \<le> 0 \<longrightarrow> jle (rnd fp x) (Fin 0)) \<and>
      (\<forall>a b x y. rnd fp a = Fin x \<and> rnd fp b = Fin y \<and> x < y \<longrightarrow> jlt (Fin 0) (rnd fp (y - x))) \<and>
      (\<forall>x. 0 < x \<longrightarrow> jle (Fin 0) (fsqrt fp x)))"

text \<open>A number that is an infinity or a result of rounding.\<close>

definition rounded :: "fpu \<Rightarrow> jsnum \<Rightarrow> bool" where
  "rounded fp x = (x = PInf \<or> x = NInf \<or> (\<exists>a b. rnd fp a = Fin b \<and> x = Fin b))"

text \<open>
  Exact arithmetic, in which nothing is rounded: one arithmetic with these properties.
  It is used for the examples, whose inputs are chosen so that every intermediate value
  is a double and binary64 computes the same values.
\<close>

definition exact_fp :: fpu where
  "exact_fp = \<lparr>rnd = Fin, fsqrt = (\<lambda>x. Fin (sqrt x)), flog = (\<lambda>x. Fin (ln x)), fexp = (\<lambda>x. Fin (exp x))\<rparr>"

text \<open>An arithmetic that rounds none of the listed numbers, and takes the listed square roots exactly.\<close>

definition exact_at :: "fpu \<Rightarrow> real list \<Rightarrow> bool" where
  "exact_at fp xs = list_all (\<lambda>x. rnd fp x = Fin x) xs"

definition sqrt_exact_at :: "fpu \<Rightarrow> real list \<Rightarrow> bool" where
  "sqrt_exact_at fp xs = list_all (\<lambda>x. fsqrt fp (x * x) = Fin x) xs"

subsection \<open>Stations and rows\<close>


text \<open>A station survives when its x/D is finite and at least two of its rows parse.\<close>

definition usableStation :: "fpu \<Rightarrow> StationData \<Rightarrow> bool" where
  "usableStation fp st =
     (isFinite (parseFloat fp (st_xd st)) \<and>
      2 \<le> length (filter (\<lambda>row. isFinite (parseFloat fp (row_r row)) \<and>
                                isFinite (parseFloat fp (row_dp row)))
                          (st_rows st)))"

definition ascendingByRadius :: "ComputedRow list \<Rightarrow> bool" where
  "ascendingByRadius rows = sorted_wrt (\<lambda>a b. jle (cr_r a) (cr_r b)) rows"

subsection \<open>Names for the intermediate values of a station\<close>

definition radii :: "ComputedStation \<Rightarrow> jsnum list" where
  "radii cs = map cr_r (cs_rows cs)"

definition velocities :: "ComputedStation \<Rightarrow> jsnum list" where
  "velocities cs = map cr_u (cs_rows cs)"

text \<open>The arrays \<open>f\<close> and \<open>g\<close> of the integration phase.\<close>

definition integrand_f :: "fpu \<Rightarrow> jsnum \<Rightarrow> jsnum list \<Rightarrow> jsnum list \<Rightarrow> jsnum list" where
  "integrand_f fp rho r u = map (\<lambda>i. jmul fp (jmul fp rho (jsnth u i)) (r ! i)) [0..<length r]"

definition integrand_g :: "fpu \<Rightarrow> jsnum \<Rightarrow> jsnum list \<Rightarrow> jsnum list \<Rightarrow> jsnum list" where
  "integrand_g fp rho r u =
     map (\<lambda>i. jmul fp (jmul fp (jmul fp rho (jsnth u i)) (jsnth u i)) (r ! i)) [0..<length r]"

definition areas :: "fpu \<Rightarrow> jsnum \<Rightarrow> jsnum list \<Rightarrow> jsnum list \<Rightarrow> jsnum \<times> jsnum" where
  "areas fp rho r u =
     trapzLoop fp r (integrand_f fp rho r u) (integrand_g fp rho r u) 0 (Fin 0) (Fin 0)"

definition mdot_trapz :: "fpu \<Rightarrow> jsnum \<Rightarrow> jsnum list \<Rightarrow> jsnum list \<Rightarrow> jsnum" where
  "mdot_trapz fp rho r u = jmul fp (jmul fp (Fin 2) (Fin Math_PI)) (fst (areas fp rho r u))"

definition I_trapz :: "fpu \<Rightarrow> jsnum \<Rightarrow> jsnum list \<Rightarrow> jsnum list \<Rightarrow> jsnum" where
  "I_trapz fp rho r u = jmul fp (jmul fp (Fin 2) (Fin Math_PI)) (snd (areas fp rho r u))"

text \<open>The condition under which the tail correction is applied.\<close>

definition tailOK :: "ComputedStation \<Rightarrow> bool" where
  "tailOK cs =
     (isFinite (cs_Uc cs) \<and> isFinite (cs_rHalf cs) \<and> jgt (cs_rHalf cs) (Fin 0) \<and> 0 < length (radii cs))"

definition tailB :: "fpu \<Rightarrow> ComputedStation \<Rightarrow> jsnum" where
  "tailB fp cs = jdiv fp (jlog fp (Fin 2)) (jmul fp (cs_rHalf cs) (cs_rHalf cs))"

definition lastRadius :: "ComputedStation \<Rightarrow> jsnum" where
  "lastRadius cs = jsnth (radii cs) (length (radii cs) - 1)"

subsection \<open>The row the specification expects\<close>

text \<open>
  The pressure in pascals and the pitot velocity as the specification gives them, in the
  arithmetic of the program: 1000 times the reading in kilopascal mode, and the square
  root of \<open>2 dpPa / rho\<close> when \<open>dpPa\<close> is not negative, 0 otherwise.
\<close>

definition dpPa_spec :: "fpu \<Rightarrow> bool \<Rightarrow> jsnum \<Rightarrow> jsnum" where
  "dpPa_spec fp unitIsKPa dp = (if unitIsKPa then jmul fp (Fin 1000) dp else dp)"

definition velocity_spec :: "fpu \<Rightarrow> jsnum \<Rightarrow> jsnum \<Rightarrow> jsnum" where
  "velocity_spec fp rho dpPa =
     (if jle (Fin 0) dpPa then jsqrt fp (jdiv fp (jmul fp (Fin 2) dpPa) rho) else Fin 0)"

definition expectedRow :: "fpu \<Rightarrow> jsnum \<Rightarrow> bool \<Rightarrow> ParsedRow \<Rightarrow> ComputedRow" where
  "expectedRow fp rho unitIsKPa p =
     \<lparr>cr_r = jdiv fp (pr_rmm p) (Fin 1000),
      cr_dpPa = dpPa_spec fp unitIsKPa (pr_dpIn p),
      cr_u = velocity_spec fp rho (dpPa_spec fp unitIsKPa (pr_dpIn p))\<rparr>"

subsection \<open>The centerline velocity as the specification gives it\<close>

text \<open>
  Linear interpolation of \<open>u\<close> against \<open>r\<close> evaluated at \<open>r = 0\<close>, the two-point fit of
  \<open>u = a r^2 + Uc\<close>, and the choice between them.
\<close>

definition linear_at_zero :: "fpu \<Rightarrow> jsnum \<Rightarrow> jsnum \<Rightarrow> jsnum \<Rightarrow> jsnum \<Rightarrow> jsnum" where
  "linear_at_zero fp r1 u1 r2 u2 =
     jadd fp u1 (jdiv fp (jmul fp (jsub fp u2 u1) (jsub fp (Fin 0) r1)) (jsub fp r2 r1))"

definition quadratic_at_zero :: "fpu \<Rightarrow> jsnum \<Rightarrow> jsnum \<Rightarrow> jsnum \<Rightarrow> jsnum \<Rightarrow> jsnum" where
  "quadratic_at_zero fp r1 u1 r2 u2 =
     (let a = jdiv fp (jsub fp u1 u2) (jsub fp (jmul fp r1 r1) (jmul fp r2 r2))
      in jsub fp u1 (jmul fp a (jmul fp r1 r1)))"

definition centerline_spec :: "fpu \<Rightarrow> jsnum \<Rightarrow> jsnum \<Rightarrow> jsnum \<Rightarrow> jsnum \<Rightarrow> jsnum" where
  "centerline_spec fp r1 u1 r2 u2 =
     (if jeq r1 (Fin 0) then u1
      else if jlt (jabs (jsub fp (jmul fp r1 r1) (jmul fp r2 r2))) (Fin lit_1em12)
           then linear_at_zero fp r1 u1 r2 u2
           else quadratic_at_zero fp r1 u1 r2 u2)"

subsection \<open>The half-velocity radius as the specification describes it\<close>

text \<open>
  A pair of consecutive samples brackets the target when the first is at or above it and
  the next at or below it; the first such index is searched from the left.
\<close>

definition bracketAt :: "jsnum list \<Rightarrow> jsnum \<Rightarrow> nat \<Rightarrow> bool" where
  "bracketAt ys target i = (jge (ys ! i) target \<and> jle (ys ! (i + 1)) target)"

definition firstBracket :: "jsnum list \<Rightarrow> jsnum \<Rightarrow> nat option" where
  "firstBracket ys target = List.find (bracketAt ys target) [0..<length ys - 1]"

text \<open>Linear interpolation of \<open>x\<close> at \<open>y = target\<close> between the samples \<open>i\<close> and \<open>i + 1\<close>.\<close>

definition interpolateAt :: "fpu \<Rightarrow> jsnum list \<Rightarrow> jsnum list \<Rightarrow> jsnum \<Rightarrow> nat \<Rightarrow> jsnum" where
  "interpolateAt fp xs ys target i =
     jadd fp (xs ! i)
          (jmul fp (jdiv fp (jsub fp target (ys ! i)) (jsub fp (ys ! (i + 1)) (ys ! i)))
                   (jsub fp (xs ! (i + 1)) (xs ! i)))"

text \<open>
  The logarithm of a velocity, minus infinity for a velocity that is not positive, and the
  rows whose logarithm is finite, transformed to the squared radius and that logarithm.
\<close>

definition lnVelocity :: "fpu \<Rightarrow> jsnum \<Rightarrow> jsnum" where
  "lnVelocity fp ui = (if jgt ui (Fin 0) then jlog fp ui else NInf)"

definition logPoints :: "fpu \<Rightarrow> jsnum list \<Rightarrow> jsnum list \<Rightarrow> TPoint list" where
  "logPoints fp r u =
     map (\<lambda>(ri, ui). \<lparr>p_r2 = jmul fp ri ri, p_lnu = lnVelocity fp ui\<rparr>)
         (filter (\<lambda>(ri, ui). isFinite (lnVelocity fp ui)) (zip r u))"

definition halfRadius_spec :: "fpu \<Rightarrow> jsnum list \<Rightarrow> jsnum list \<Rightarrow> jsnum \<Rightarrow> jsnum" where
  "halfRadius_spec fp r u Uc =
     (let half = jdiv fp Uc (Fin 2);
          r2s = map p_r2 (logPoints fp r u);
          lnus = map p_lnu (logPoints fp r u)
      in case firstBracket lnus (jlog fp half) of
           Some i \<Rightarrow> jsqrt fp (interpolateAt fp r2s lnus (jlog fp half) i)
         | None \<Rightarrow>
             (case firstBracket u half of
                Some i \<Rightarrow> interpolateAt fp r u half i
              | None \<Rightarrow> NaN))"

text \<open>A value that is not finite is recorded as NaN.\<close>

definition finiteOrNaN :: "jsnum \<Rightarrow> jsnum" where
  "finiteOrNaN x = (if isFinite x then x else NaN)"

subsection \<open>Trapezoidal totals and tail corrections as the specification gives them\<close>

text \<open>
  The contribution of the segment between the samples \<open>i\<close> and \<open>i + 1\<close>.  Products are
  taken from left to right, as the source writes them.
\<close>

definition segmentArea :: "fpu \<Rightarrow> jsnum list \<Rightarrow> jsnum list \<Rightarrow> nat \<Rightarrow> jsnum" where
  "segmentArea fp f r i =
     jmul fp (jmul fp (Fin (1 / 2)) (jadd fp (f ! i) (f ! (i + 1)))) (jsub fp (r ! (i + 1)) (r ! i))"

text \<open>Two pi times the sum of the segments, added up from the innermost outwards.\<close>

definition trapezoid_total :: "fpu \<Rightarrow> jsnum list \<Rightarrow> jsnum list \<Rightarrow> jsnum" where
  "trapezoid_total fp f r =
     jmul fp (jmul fp (Fin 2) (Fin Math_PI))
             (foldl (jadd fp) (Fin 0) (map (segmentArea fp f r) [0..<length r - 1]))"

definition mass_integrand :: "fpu \<Rightarrow> jsnum \<Rightarrow> jsnum list \<Rightarrow> jsnum list \<Rightarrow> jsnum list" where
  "mass_integrand fp rho r u = map (\<lambda>(ri, ui). jmul fp (jmul fp rho ui) ri) (zip r u)"

definition momentum_integrand :: "fpu \<Rightarrow> jsnum \<Rightarrow> jsnum list \<Rightarrow> jsnum list \<Rightarrow> jsnum list" where
  "momentum_integrand fp rho r u =
     map (\<lambda>(ri, ui). jmul fp (jmul fp (jmul fp rho ui) ui) ri) (zip r u)"

definition mdot_spec :: "fpu \<Rightarrow> jsnum \<Rightarrow> jsnum list \<Rightarrow> jsnum list \<Rightarrow> jsnum" where
  "mdot_spec fp rho r u = trapezoid_total fp (mass_integrand fp rho r u) r"

definition I_spec :: "fpu \<Rightarrow> jsnum \<Rightarrow> jsnum list \<Rightarrow> jsnum list \<Rightarrow> jsnum" where
  "I_spec fp rho r u = trapezoid_total fp (momentum_integrand fp rho r u) r"

subsection \<open>Similarity collapse as the specification gives it\<close>

text \<open>The ideal self-similar Gaussian, one half at \<open>xr = 1\<close>.\<close>

definition ideal_profile :: "fpu \<Rightarrow> jsnum \<Rightarrow> jsnum" where
  "ideal_profile fp xr = jexp fp (jmul fp (jmul fp (jneg (jlog fp (Fin 2))) xr) xr)"

text \<open>The normalised points \<open>(r / h, u / uc)\<close> of the rows, and their root mean square error.\<close>

definition collapse_spec :: "fpu \<Rightarrow> jsnum \<Rightarrow> jsnum \<Rightarrow> jsnum list \<Rightarrow> jsnum list \<Rightarrow> CollapsedPoint list" where
  "collapse_spec fp h uc r u = map (\<lambda>(ri, ui). \<lparr>cp_xr = jdiv fp ri h, cp_ur = jdiv fp ui uc\<rparr>) (zip r u)"

definition squaredError :: "fpu \<Rightarrow> CollapsedPoint \<Rightarrow> jsnum" where
  "squaredError fp p =
     jmul fp (jsub fp (cp_ur p) (ideal_profile fp (cp_xr p)))
             (jsub fp (cp_ur p) (ideal_profile fp (cp_xr p)))"

definition rmse_spec :: "fpu \<Rightarrow> CollapsedPoint list \<Rightarrow> jsnum" where
  "rmse_spec fp pts =
     jsqrt fp (jdiv fp (foldl (jadd fp) (Fin 0) (map (squaredError fp) pts)) (Fin (real (length pts))))"

subsection \<open>Example inputs\<close>

definition mkRow :: "string \<Rightarrow> string \<Rightarrow> RowData" where
  "mkRow r dp = \<lparr>row_id = [], row_r = r, row_dp = dp\<rparr>"

definition mkStation :: "string \<Rightarrow> string \<Rightarrow> RowData list \<Rightarrow> StationData" where
  "mkStation i xd rows = \<lparr>st_id = i, st_xd = xd, st_variac = [], st_port1 = [], st_rows = rows\<rparr>"

definition mkSettings :: "string \<Rightarrow> string \<Rightarrow> pUnits \<Rightarrow> GlobalSettings" where
  "mkSettings rho Dcm un =
     \<lparr>gs_rho = rho, gs_Dcm = Dcm, gs_pUnits = un, gs_contraction = ''9.0'', gs_showSteps = True\<rparr>"

text \<open>Radii are given in millimetres: 1000 is one metre, so that every value below is a double.\<close>

definition st_demo :: StationData where
  "st_demo = mkStation ''s1'' ''8.5'' [mkRow ''1000'' ''1'', mkRow ''0'' ''4'', mkRow ''2000'' ''0'']"

definition st_noxd :: StationData where
  "st_noxd = mkStation ''s2'' ''abc'' [mkRow ''0'' ''4'', mkRow ''1000'' ''1'']"

definition st_onerow :: StationData where
  "st_onerow = mkStation ''s3'' ''18.5'' [mkRow ''0'' ''4'', mkRow ''x'' ''1'', mkRow ''2000'' []]"

definition g_demo :: GlobalSettings where
  "g_demo = mkSettings ''2'' ''200'' Pa"

definition st_negdp :: StationData where
  "st_negdp = mkStation ''n1'' ''1'' [mkRow ''0'' ''-1'', mkRow ''1000'' ''-1'']"

definition st_negr :: StationData where
  "st_negr = mkStation ''n3'' ''3'' [mkRow ''0'' ''0'', mkRow ''-5000'' ''0'']"

definition st_zero :: StationData where
  "st_zero = mkStation ''z1'' ''4'' [mkRow ''0'' ''0'', mkRow ''1000'' ''4'', mkRow ''2000'' ''0'']"

definition st_quad :: StationData where
  "st_quad = mkStation ''q1'' ''5'' [mkRow ''1000'' ''16'', mkRow ''2000'' ''1'']"

definition st_dup :: StationData where
  "st_dup = mkStation ''d1'' ''6'' [mkRow ''1000'' ''16'', mkRow ''1000'' ''1'']"


section \<open>Numbers and rows\<close>

lemmas parse_defs =
  parseFloat_def numberOf_def parseUnsigned_def parseExponent_def scale10_def digitsValue_def
  isDigit_def whiteSpaceLength_def

lemmas demo_defs = mkRow_def mkStation_def mkSettings_def

text \<open>The loops are unfolded by hand, one iteration at a time.\<close>

declare skipWhiteSpace.simps [simp del]
declare logScan.simps [simp del]
declare linScan.simps [simp del]
declare checkRows.simps [simp del]
declare trapzLoop.simps [simp del]

lemma skipWhiteSpace_none: "whiteSpaceLength s = 0 \<Longrightarrow> skipWhiteSpace s = s"
  by (subst skipWhiteSpace.simps) simp

lemma skipWhiteSpace_step:
  "whiteSpaceLength s = Suc n \<Longrightarrow> s \<noteq> [] \<Longrightarrow> skipWhiteSpace s = skipWhiteSpace (drop (Suc n) s)"
  by (subst skipWhiteSpace.simps) simp

text \<open>The texts used in the examples, read by \<open>parseFloat\<close>.\<close>

lemma skip_examples:
  "skipWhiteSpace ''0'' = ''0''" "skipWhiteSpace ''1'' = ''1''" "skipWhiteSpace ''2'' = ''2''"
  "skipWhiteSpace ''3'' = ''3''" "skipWhiteSpace ''4'' = ''4''" "skipWhiteSpace ''5'' = ''5''"
  "skipWhiteSpace ''6'' = ''6''" "skipWhiteSpace ''16'' = ''16''" "skipWhiteSpace ''200'' = ''200''"
  "skipWhiteSpace ''1000'' = ''1000''" "skipWhiteSpace ''2000'' = ''2000''"
  "skipWhiteSpace ''8.5'' = ''8.5''" "skipWhiteSpace ''18.5'' = ''18.5''"
  "skipWhiteSpace ''-1'' = ''-1''" "skipWhiteSpace ''-2'' = ''-2''" "skipWhiteSpace ''-3'' = ''-3''"
  "skipWhiteSpace ''-300'' = ''-300''" "skipWhiteSpace ''-5000'' = ''-5000''"
  "skipWhiteSpace ''abc'' = ''abc''" "skipWhiteSpace ''x'' = ''x''" "skipWhiteSpace [] = []"
  "skipWhiteSpace ''-Infinity'' = ''-Infinity''"
  by (rule skipWhiteSpace_none, simp add: whiteSpaceLength_def)+

lemma parse_examples:
  "parseFloat fp ''0'' = rnd fp 0" "parseFloat fp ''1'' = rnd fp 1" "parseFloat fp ''2'' = rnd fp 2"
  "parseFloat fp ''3'' = rnd fp 3" "parseFloat fp ''4'' = rnd fp 4" "parseFloat fp ''5'' = rnd fp 5"
  "parseFloat fp ''6'' = rnd fp 6" "parseFloat fp ''16'' = rnd fp 16"
  "parseFloat fp ''200'' = rnd fp 200"
  "parseFloat fp ''1000'' = rnd fp 1000" "parseFloat fp ''2000'' = rnd fp 2000"
  "parseFloat fp ''8.5'' = rnd fp (17 / 2)" "parseFloat fp ''18.5'' = rnd fp (37 / 2)"
  "parseFloat fp ''-1'' = rnd fp (- 1)" "parseFloat fp ''-2'' = rnd fp (- 2)"
  "parseFloat fp ''-3'' = rnd fp (- 3)"
  "parseFloat fp ''-300'' = rnd fp (- 300)" "parseFloat fp ''-5000'' = rnd fp (- 5000)"
  "parseFloat fp ''abc'' = NaN" "parseFloat fp ''x'' = NaN" "parseFloat fp [] = NaN"
  "parseFloat fp ''-Infinity'' = NInf"
  by (simp_all add: parseFloat_def skip_examples numberOf_def parseUnsigned_def parseExponent_def
        scale10_def digitsValue_def isDigit_def)

text \<open>White space in front of a number is skipped, also when it is not ASCII (here U+00A0).\<close>

lemma parse_whitespace:
  "parseFloat fp (CHR '' '' # CHR 0x09 # CHR 0xC2 # CHR 0xA0 # ''4'') = rnd fp 4"
proof -
  have "skipWhiteSpace (CHR '' '' # CHR 0x09 # CHR 0xC2 # CHR 0xA0 # ''4'') = ''4''"
    by (subst skipWhiteSpace.simps, simp add: whiteSpaceLength_def)+
  then show ?thesis
    by (simp add: parseFloat_def numberOf_def parseUnsigned_def parseExponent_def
        scale10_def digitsValue_def isDigit_def)
qed

lemma exact_fp_simps [simp]:
  "rnd exact_fp x = Fin x" "fsqrt exact_fp x = Fin (sqrt x)"
  "flog exact_fp x = Fin (ln x)" "fexp exact_fp x = Fin (exp x)"
  by (simp_all add: exact_fp_def)

lemma sound_exact_fp: "sound_fp exact_fp"
  by (simp add: sound_fp_def)

lemma exact_at_exact_fp: "exact_at exact_fp xs"
  by (simp add: exact_at_def list_all_iff)

lemma sqrt_exact_at_exact_fp: "list_all (\<lambda>x. 0 \<le> x) xs \<Longrightarrow> sqrt_exact_at exact_fp xs"
  by (simp add: sqrt_exact_at_def list_all_iff)

lemma sqrt_exact_examples:
  "sqrt_exact_at exact_fp [1]" "sqrt_exact_at exact_fp [2]" "sqrt_exact_at exact_fp [1, 2]"
  "sqrt_exact_at exact_fp [1, 4]"
  by (simp_all add: sqrt_exact_at_exact_fp)

lemma literal_values:
  "\<bar>lit_1_204 - 1204 / 1000\<bar> < 1 / 10 ^ 16" "\<bar>lit_2_54 - 254 / 100\<bar> < 1 / 10 ^ 15"
  "\<bar>lit_1em12 - 1 / 10 ^ 12\<bar> < 1 / 10 ^ 28" "0 < lit_1_204" "0 < lit_2_54" "0 < lit_1em12"
  by (simp_all add: lit_1_204_def lit_2_54_def lit_1em12_def abs_if)

lemma isFinite_iff: "isFinite x = (\<exists>a. x = Fin a)"
  by (cases x) simp_all

lemma jle_zero_iff: "jle (Fin 0) x = (x = PInf \<or> (\<exists>a. 0 \<le> a \<and> x = Fin a))"
  by (cases x) auto

lemma jle_iff_zero: "jle x (Fin 0) = (x = NInf \<or> (\<exists>a. a \<le> 0 \<and> x = Fin a))"
  by (cases x) auto

lemma sound_rnd_nonneg: "sound_fp fp \<Longrightarrow> 0 \<le> x \<Longrightarrow> jle (Fin 0) (rnd fp x)"
  by (simp add: sound_fp_def)

lemma sound_rnd_nonpos: "sound_fp fp \<Longrightarrow> x \<le> 0 \<Longrightarrow> jle (rnd fp x) (Fin 0)"
  by (simp add: sound_fp_def)

lemma sound_rnd_NaN: "sound_fp fp \<Longrightarrow> rnd fp x \<noteq> NaN"
proof (cases "0 \<le> x")
  case True
  assume "sound_fp fp"
  from sound_rnd_nonneg [OF this True] show ?thesis by (auto simp: jle_zero_iff)
next
  case False
  assume "sound_fp fp"
  from sound_rnd_nonpos [OF this, of x] False show ?thesis by (auto simp: jle_iff_zero)
qed

lemma sound_rnd_zero: "sound_fp fp \<Longrightarrow> rnd fp 0 = Fin 0"
  using sound_rnd_nonneg [of fp 0] sound_rnd_nonpos [of fp 0]
  by (auto simp: jle_zero_iff jle_iff_zero)

lemma sound_rnd_diff:
  "sound_fp fp \<Longrightarrow> rnd fp a = Fin x \<Longrightarrow> rnd fp b = Fin y \<Longrightarrow> x < y \<Longrightarrow> jlt (Fin 0) (rnd fp (y - x))"
  unfolding sound_fp_def by blast

lemma sound_fsqrt: "sound_fp fp \<Longrightarrow> 0 < x \<Longrightarrow> jle (Fin 0) (fsqrt fp x)"
  by (simp add: sound_fp_def)

text \<open>The operators are commutative where the source relies on it.\<close>

lemma jmul_commute: "jmul fp x y = jmul fp y x"
  by (cases x; cases y) (simp_all add: mult.commute)

lemma rounded_rnd: "sound_fp fp \<Longrightarrow> rounded fp (rnd fp x)"
  using sound_rnd_NaN [of fp x] by (cases "rnd fp x") (auto simp: rounded_def)

lemma rounded_not_NaN: "rounded fp x \<Longrightarrow> x \<noteq> NaN"
  by (auto simp: rounded_def)

text \<open>The comparator of the sort is positive exactly when its first argument is the larger.\<close>

lemma comparator_positive:
  assumes "sound_fp fp" "rounded fp x" "rounded fp y"
  shows "jgt (jsub fp x y) (Fin 0) = jlt y x"
proof -
  have fin: "jlt (Fin 0) (rnd fp (a - b)) = (b < a)"
    if "x = Fin a" "y = Fin b" for a b
  proof (cases "b < a")
    case True
    from assms that obtain a' b' where "rnd fp a' = Fin a" "rnd fp b' = Fin b"
      by (auto simp: rounded_def)
    from sound_rnd_diff [OF assms(1) this(2) this(1) True] True show ?thesis by simp
  next
    case False
    then have "a - b \<le> 0" by simp
    from sound_rnd_nonpos [OF assms(1) this] False show ?thesis
      by (cases "rnd fp (a - b)") auto
  qed
  show ?thesis
    using assms(2,3) fin
    by (cases x; cases y) (auto simp: jgt_def jsub_def dest: rounded_not_NaN)
qed

lemma jle_trans: "jle x y \<Longrightarrow> jle y z \<Longrightarrow> jle x z"
  by (cases x; cases y; cases z) auto

lemma jle_linear: "x \<noteq> NaN \<Longrightarrow> y \<noteq> NaN \<Longrightarrow> \<not> jlt y x \<Longrightarrow> jle x y"
  by (cases x; cases y) auto

lemma jlt_imp_jle: "jlt x y \<Longrightarrow> jle x y"
  by (cases x; cases y) auto

lemma jle_refl: "x \<noteq> NaN \<Longrightarrow> jle x x"
  by (cases x) auto

lemma parseRows_finite:
  "p \<in> set (parseRows fp st) \<Longrightarrow> \<exists>a b. pr_rmm p = Fin a \<and> pr_dpIn p = Fin b"
  by (auto simp: parseRows_def isFinite_iff)

lemma deriveRow_r: "cr_r (deriveRow fp rho k p) = jdiv fp (pr_rmm p) (Fin 1000)"
  by (simp add: deriveRow_def Let_def mm2m_def)

lemma deriveRow_dpPa: "cr_dpPa (deriveRow fp rho k p) = dpPa_spec fp k (pr_dpIn p)"
  by (simp add: deriveRow_def Let_def kPa2Pa_def dpPa_spec_def jmul_commute)

lemma deriveRow_u:
  "cr_u (deriveRow fp rho k p) =
   jsqrt fp (jmax (Fin 0) (jdiv fp (jmul fp (Fin 2) (dpPa_spec fp k (pr_dpIn p))) rho))"
  by (simp add: deriveRow_def Let_def kPa2Pa_def dpPa_spec_def jmul_commute)

lemma deriveRow_rounded:
  "sound_fp fp \<Longrightarrow> pr_rmm p = Fin a \<Longrightarrow> rounded fp (cr_r (deriveRow fp rho k p))"
  by (simp add: deriveRow_r rounded_rnd)

lemma set_insertRow: "set (insertRow fp a bs) = insert a (set bs)"
  by (induction bs) auto

lemma mset_insertRow: "mset (insertRow fp a bs) = add_mset a (mset bs)"
  by (induction bs) auto

lemma mset_sortRows: "mset (sortRows fp rows) = mset rows"
  by (induction rows) (simp_all add: sortRows_def mset_insertRow)

lemma set_sortRows: "set (sortRows fp rows) = set rows"
  using mset_sortRows [of fp rows] by (metis set_mset_mset)

lemma length_sortRows: "length (sortRows fp rows) = length rows"
  using mset_sortRows [of fp rows] by (metis size_mset)

lemma ascending_insertRow:
  assumes "sound_fp fp" "rounded fp (cr_r a)" "\<forall>b\<in>set bs. rounded fp (cr_r b)"
    "ascendingByRadius bs"
  shows "ascendingByRadius (insertRow fp a bs)"
  using assms(3,4)
proof (induction bs)
  case Nil
  then show ?case by (simp add: ascendingByRadius_def)
next
  case (Cons b bs)
  have rb: "rounded fp (cr_r b)" using Cons.prems(1) by simp
  have cmp: "jgt (jsub fp (cr_r a) (cr_r b)) (Fin 0) = jlt (cr_r b) (cr_r a)"
    by (rule comparator_positive [OF assms(1,2) rb])
  show ?case
  proof (cases "jlt (cr_r b) (cr_r a)")
    case True
    have "ascendingByRadius (insertRow fp a bs)"
      using Cons by (simp add: ascendingByRadius_def)
    with True Cons.prems(2) show ?thesis
      by (auto simp: ascendingByRadius_def cmp set_insertRow jlt_imp_jle)
  next
    case False
    have ab: "jle (cr_r a) (cr_r b)"
      using False assms(2) rb by (intro jle_linear rounded_not_NaN)
    have "\<forall>c\<in>set bs. jle (cr_r a) (cr_r c)"
    proof
      fix c assume c: "c \<in> set bs"
      from c Cons.prems(2) have "jle (cr_r b) (cr_r c)" by (simp add: ascendingByRadius_def)
      with ab show "jle (cr_r a) (cr_r c)" by (rule jle_trans)
    qed
    with False ab Cons.prems(2) show ?thesis
      by (auto simp: ascendingByRadius_def cmp)
  qed
qed

lemma ascending_sortRows:
  "sound_fp fp \<Longrightarrow> \<forall>b\<in>set rows. rounded fp (cr_r b) \<Longrightarrow> ascendingByRadius (sortRows fp rows)"
proof (induction rows)
  case Nil
  then show ?case by (simp add: sortRows_def ascendingByRadius_def)
next
  case (Cons a rows)
  have "ascendingByRadius (insertRow fp a (sortRows fp rows))"
    using Cons by (intro ascending_insertRow) (simp_all add: set_sortRows)
  then show ?case by (simp add: sortRows_def)
qed


section \<open>The shape of a computed station\<close>

lemma length_parseRows:
  "length (parseRows fp st) =
   length (filter (\<lambda>row. isFinite (parseFloat fp (row_r row)) \<and> isFinite (parseFloat fp (row_dp row)))
                  (st_rows st))"
  by (simp add: parseRows_def filter_map comp_def)

lemma computeStation_None_iff:
  "(computeStation fp rho D k st = None) = (\<not> usableStation fp st)"
proof (cases "usableStation fp st")
  case True
  then show ?thesis
    by (simp add: computeStation_def usableStation_def length_parseRows [symmetric] Let_def
             split del: if_split)
next
  case False
  then have "\<not> isFinite (parseFloat fp (st_xd st)) \<or> length (parseRows fp st) < 2"
    by (auto simp: usableStation_def length_parseRows)
  then show ?thesis
  proof
    assume "\<not> isFinite (parseFloat fp (st_xd st))"
    then show ?thesis using False by (simp add: computeStation_def)
  next
    assume "length (parseRows fp st) < 2"
    then have "computeStation fp rho D k st = None"
      by (cases "isFinite (parseFloat fp (st_xd st))")
         (simp_all add: computeStation_def Let_def split del: if_split)
    then show ?thesis using False by simp
  qed
qed

lemma computeStation_usable: "computeStation fp rho D k st = Some cs \<Longrightarrow> usableStation fp st"
  using computeStation_None_iff [of fp rho D k st] by auto

lemma the_computeStation_simple:
  assumes "usableStation fp st"
  shows "cs_id (the (computeStation fp rho D k st)) = st_id st"
    and "cs_rows (the (computeStation fp rho D k st)) =
           sortRows fp (map (deriveRow fp rho k) (parseRows fp st))"
    and "cs_rho (the (computeStation fp rho D k st)) = rho"
    and "cs_D (the (computeStation fp rho D k st)) = D"
    and "cs_unitIsKPa (the (computeStation fp rho D k st)) = k"
    and "cs_xd (the (computeStation fp rho D k st)) = parseFloat fp (st_xd st)"
  using assms
  by (simp_all add: computeStation_def usableStation_def length_parseRows [symmetric] Let_def
               split del: if_split)

lemma computeStation_the:
  "computeStation fp rho D k st = Some cs \<Longrightarrow>
   usableStation fp st \<and> the (computeStation fp rho D k st) = cs"
  by (simp add: computeStation_usable)

lemma computeStation_id: "computeStation fp rho D k st = Some cs \<Longrightarrow> cs_id cs = st_id st"
  by (drule computeStation_the) (auto dest: the_computeStation_simple(1))

lemma computeStation_rows:
  "computeStation fp rho D k st = Some cs \<Longrightarrow>
   cs_rows cs = sortRows fp (map (deriveRow fp rho k) (parseRows fp st))"
  by (drule computeStation_the) (auto dest: the_computeStation_simple(2))

lemma computeStation_rho_D:
  "computeStation fp rho D k st = Some cs \<Longrightarrow> cs_rho cs = rho \<and> cs_D cs = D \<and> cs_unitIsKPa cs = k"
  by (drule computeStation_the) (auto dest: the_computeStation_simple(3-5))

lemma computeStation_mset:
  "computeStation fp rho D k st = Some cs \<Longrightarrow>
   mset (cs_rows cs) = mset (map (deriveRow fp rho k) (parseRows fp st))"
  by (simp add: computeStation_rows mset_sortRows)

lemma computeStation_length:
  "computeStation fp rho D k st = Some cs \<Longrightarrow>
   length (cs_rows cs) = length (parseRows fp st) \<and> 2 \<le> length (cs_rows cs)"
  using computeStation_usable [of fp rho D k st cs]
  by (simp add: computeStation_rows length_sortRows usableStation_def length_parseRows)

lemma results_computeAll:
  "results (computeAll fp sts g) =
   List.map_filter (computeStation fp (usedRho fp g) (usedD fp g) (gs_pUnits g = Kpa)) sts"
  by (simp add: computeAll_def Let_def)

lemma in_results:
  "cs \<in> set (results (computeAll fp sts g)) \<Longrightarrow>
   \<exists>st\<in>set sts. computeStation fp (usedRho fp g) (usedD fp g) (gs_pUnits g = Kpa) st = Some cs"
  by (auto simp: results_computeAll map_filter_def)

lemma map_filter_all2:
  "list_all2 (\<lambda>y x. f x = Some y) (List.map_filter f xs) (filter (\<lambda>x. f x \<noteq> None) xs)"
  by (induction xs) (auto simp: map_filter_def)

lemma rows_rounded:
  assumes "sound_fp fp" "computeStation fp rho D k st = Some cs" "row \<in> set (cs_rows cs)"
  shows "rounded fp (cr_r row)"
proof -
  from assms obtain p where p: "p \<in> set (parseRows fp st)" "row = deriveRow fp rho k p"
    by (auto simp: computeStation_rows set_sortRows)
  then show ?thesis using parseRows_finite [OF p(1)] assms(1) by (auto simp: deriveRow_rounded)
qed

lemma rows_ascending:
  assumes "sound_fp fp" "computeStation fp rho D k st = Some cs"
  shows "ascendingByRadius (cs_rows cs)"
proof -
  have "ascendingByRadius (sortRows fp (map (deriveRow fp rho k) (parseRows fp st)))"
  proof (rule ascending_sortRows [OF assms(1)], rule ballI)
    fix b assume "b \<in> set (map (deriveRow fp rho k) (parseRows fp st))"
    then have "b \<in> set (cs_rows cs)" by (simp add: computeStation_rows [OF assms(2)] set_sortRows)
    then show "rounded fp (cr_r b)" by (rule rows_rounded [OF assms])
  qed
  then show ?thesis by (simp add: computeStation_rows [OF assms(2)])
qed

lemma fst_centerline: "fst (centerline fp r u T) = fst (centerline fp r u T')"
  by (simp add: centerline_def Let_def)

lemma the_computeStation_fields:
  fixes fp rho D k st
  assumes "usableStation fp st"
  defines "cs \<equiv> the (computeStation fp rho D k st)"
  shows "cs_Uc cs = fst (centerline fp (radii cs) (velocities cs) (checkRows (cs_rows cs) 1 mkTrace))"
    and "cs_rHalf cs =
           (if \<not> isFinite (interpolateRhalf fp (radii cs) (velocities cs) (cs_Uc cs)) then NaN
            else interpolateRhalf fp (radii cs) (velocities cs) (cs_Uc cs))"
    and "cs_mdot cs =
           (if tailOK cs
            then jadd fp (mdot_trapz fp rho (radii cs) (velocities cs))
                         (tail_mdot fp rho (cs_Uc cs) (tailB fp cs) (lastRadius cs))
            else mdot_trapz fp rho (radii cs) (velocities cs))"
    and "cs_I cs =
           (if tailOK cs
            then jadd fp (I_trapz fp rho (radii cs) (velocities cs))
                         (tail_I fp rho (cs_Uc cs) (tailB fp cs) (lastRadius cs))
            else I_trapz fp rho (radii cs) (velocities cs))"
    and "cs_collapse cs =
           (if isFinite (cs_rHalf cs) \<and> jgt (cs_rHalf cs) (Fin 0)
            then map (\<lambda>i. \<lparr>cp_xr = jdiv fp (radii cs ! i) (cs_rHalf cs),
                            cp_ur = jdiv fp (jsnth (velocities cs) i) (cs_Uc cs)\<rparr>)
                     [0..<length (radii cs)]
            else [])"
    and "cs_rmse cs =
           (if 0 < length (cs_collapse cs)
            then jsqrt fp (jdiv fp (sumSqErr fp (cs_collapse cs)) (Fin (real (length (cs_collapse cs)))))
            else NaN)"
    and "cs_trace cs =
           (let T2 = snd (centerline fp (radii cs) (velocities cs) (checkRows (cs_rows cs) 1 mkTrace));
                T3 = (if \<not> isFinite (interpolateRhalf fp (radii cs) (velocities cs) (cs_Uc cs))
                      then pushWarn T2 NoCrossing else T2)
            in if tailOK cs then T3 else pushWarn T3 TailSkipped)"
  using assms(1) unfolding cs_def
  by (simp_all add: computeStation_def usableStation_def length_parseRows [symmetric] Let_def
        radii_def velocities_def tailOK_def tailB_def lastRadius_def mdot_trapz_def I_trapz_def
        areas_def integrand_f_def integrand_g_def
        split del: if_split cong: if_cong)

lemma the_computeStation_warnings:
  fixes fp rho D k st
  assumes "usableStation fp st"
  defines "cs \<equiv> the (computeStation fp rho D k st)"
  shows "warnings (cs_trace cs) =
           warnings (snd (centerline fp (radii cs) (velocities cs) (checkRows (cs_rows cs) 1 mkTrace)))
           @ (if \<not> isFinite (interpolateRhalf fp (radii cs) (velocities cs) (cs_Uc cs))
              then [NoCrossing] else [])
           @ (if tailOK cs then [] else [TailSkipped])"
  unfolding cs_def the_computeStation_fields(7) [OF assms(1)]
  by (simp add: Let_def pushWarn_def)

lemma computeStation_fields:
  assumes "computeStation fp rho D k st = Some cs"
  shows "cs_Uc cs = fst (centerline fp (radii cs) (velocities cs) (checkRows (cs_rows cs) 1 mkTrace))"
    and "cs_rHalf cs =
           (if \<not> isFinite (interpolateRhalf fp (radii cs) (velocities cs) (cs_Uc cs)) then NaN
            else interpolateRhalf fp (radii cs) (velocities cs) (cs_Uc cs))"
    and "cs_mdot cs =
           (if tailOK cs
            then jadd fp (mdot_trapz fp rho (radii cs) (velocities cs))
                         (tail_mdot fp rho (cs_Uc cs) (tailB fp cs) (lastRadius cs))
            else mdot_trapz fp rho (radii cs) (velocities cs))"
    and "cs_I cs =
           (if tailOK cs
            then jadd fp (I_trapz fp rho (radii cs) (velocities cs))
                         (tail_I fp rho (cs_Uc cs) (tailB fp cs) (lastRadius cs))
            else I_trapz fp rho (radii cs) (velocities cs))"
    and "cs_collapse cs =
           (if isFinite (cs_rHalf cs) \<and> jgt (cs_rHalf cs) (Fin 0)
            then map (\<lambda>i. \<lparr>cp_xr = jdiv fp (radii cs ! i) (cs_rHalf cs),
                            cp_ur = jdiv fp (jsnth (velocities cs) i) (cs_Uc cs)\<rparr>)
                     [0..<length (radii cs)]
            else [])"
    and "cs_rmse cs =
           (if 0 < length (cs_collapse cs)
            then jsqrt fp (jdiv fp (sumSqErr fp (cs_collapse cs)) (Fin (real (length (cs_collapse cs)))))
            else NaN)"
    and "warnings (cs_trace cs) =
           warnings (snd (centerline fp (radii cs) (velocities cs) (checkRows (cs_rows cs) 1 mkTrace)))
           @ (if \<not> isFinite (interpolateRhalf fp (radii cs) (velocities cs) (cs_Uc cs))
              then [NoCrossing] else [])
           @ (if tailOK cs then [] else [TailSkipped])"
proof -
  have u: "usableStation fp st" and e: "the (computeStation fp rho D k st) = cs"
    using computeStation_the [OF assms] by auto
  note f = the_computeStation_fields [OF u, where rho = rho and D = D and k = k, unfolded e]
  note w = the_computeStation_warnings [OF u, where rho = rho and D = D and k = k, unfolded e]
  show "cs_Uc cs = fst (centerline fp (radii cs) (velocities cs) (checkRows (cs_rows cs) 1 mkTrace))"
    by (rule f(1))
  show "cs_rHalf cs =
           (if \<not> isFinite (interpolateRhalf fp (radii cs) (velocities cs) (cs_Uc cs)) then NaN
            else interpolateRhalf fp (radii cs) (velocities cs) (cs_Uc cs))"
    by (rule f(2))
  show "cs_mdot cs =
           (if tailOK cs
            then jadd fp (mdot_trapz fp rho (radii cs) (velocities cs))
                         (tail_mdot fp rho (cs_Uc cs) (tailB fp cs) (lastRadius cs))
            else mdot_trapz fp rho (radii cs) (velocities cs))"
    by (rule f(3))
  show "cs_I cs =
           (if tailOK cs
            then jadd fp (I_trapz fp rho (radii cs) (velocities cs))
                         (tail_I fp rho (cs_Uc cs) (tailB fp cs) (lastRadius cs))
            else I_trapz fp rho (radii cs) (velocities cs))"
    by (rule f(4))
  show "cs_collapse cs =
           (if isFinite (cs_rHalf cs) \<and> jgt (cs_rHalf cs) (Fin 0)
            then map (\<lambda>i. \<lparr>cp_xr = jdiv fp (radii cs ! i) (cs_rHalf cs),
                            cp_ur = jdiv fp (jsnth (velocities cs) i) (cs_Uc cs)\<rparr>)
                     [0..<length (radii cs)]
            else [])"
    by (rule f(5))
  show "cs_rmse cs =
           (if 0 < length (cs_collapse cs)
            then jsqrt fp (jdiv fp (sumSqErr fp (cs_collapse cs)) (Fin (real (length (cs_collapse cs)))))
            else NaN)"
    by (rule f(6))
  show "warnings (cs_trace cs) =
           warnings (snd (centerline fp (radii cs) (velocities cs) (checkRows (cs_rows cs) 1 mkTrace)))
           @ (if \<not> isFinite (interpolateRhalf fp (radii cs) (velocities cs) (cs_Uc cs))
              then [NoCrossing] else [])
           @ (if tailOK cs then [] else [TailSkipped])"
    by (rule w)
qed

lemma computeStation_Some_iff:
  "(\<exists>cs. computeStation fp rho D k st = Some cs) = usableStation fp st"
  using computeStation_None_iff [of fp rho D k st] by auto

lemma results_eq:
  "results (computeAll fp sts g) =
   map (\<lambda>st. the (computeStation fp (usedRho fp g) (usedD fp g) (gs_pUnits g = Kpa) st))
       (filter (usableStation fp) sts)"
  by (simp add: results_computeAll map_filter_def comp_def computeStation_Some_iff)

lemma computeStation_Some:
  "usableStation fp st \<Longrightarrow> \<exists>cs. computeStation fp rho D k st = Some cs"
  using computeStation_None_iff [of fp rho D k st] by auto

lemma results_single:
  "usableStation fp st \<Longrightarrow>
   results (computeAll fp [st] g) =
   [the (computeStation fp (usedRho fp g) (usedD fp g) (gs_pUnits g = Kpa) st)]"
  by (simp add: results_eq)

lemma rows_single:
  "usableStation fp st \<Longrightarrow>
   cs_rows (the (computeStation fp rho D k st)) =
   sortRows fp (map (deriveRow fp rho k) (parseRows fp st))"
  by (rule the_computeStation_simple(2))


section \<open>Output contract of computeAll\<close>

lemma usable_examples:
  assumes "exact_at fp [1, 3, 4, 5, 6, 17 / 2, 0, 16, 1000, 2000, - 1, - 5000]"
  shows "usableStation fp st_demo" "usableStation fp st_negdp" "usableStation fp st_negr"
    "usableStation fp st_zero" "usableStation fp st_quad" "usableStation fp st_dup"
    "\<not> usableStation fp st_noxd" "\<not> usableStation fp st_onerow"
  using assms
  by (simp_all add: exact_at_def usableStation_def st_demo_def st_negdp_def st_negr_def
        st_zero_def st_quad_def st_dup_def st_noxd_def st_onerow_def demo_defs parse_examples)

lemma parseRows_examples:
  assumes "exact_at fp [0, 1, 4, 16, 1000, 2000, - 1, - 5000]"
  shows "parseRows fp st_demo =
           [\<lparr>pr_rmm = Fin 1000, pr_dpIn = Fin 1\<rparr>, \<lparr>pr_rmm = Fin 0, pr_dpIn = Fin 4\<rparr>,
            \<lparr>pr_rmm = Fin 2000, pr_dpIn = Fin 0\<rparr>]"
    and "parseRows fp st_negdp =
           [\<lparr>pr_rmm = Fin 0, pr_dpIn = Fin (- 1)\<rparr>, \<lparr>pr_rmm = Fin 1000, pr_dpIn = Fin (- 1)\<rparr>]"
    and "parseRows fp st_negr =
           [\<lparr>pr_rmm = Fin 0, pr_dpIn = Fin 0\<rparr>, \<lparr>pr_rmm = Fin (- 5000), pr_dpIn = Fin 0\<rparr>]"
    and "parseRows fp st_zero =
           [\<lparr>pr_rmm = Fin 0, pr_dpIn = Fin 0\<rparr>, \<lparr>pr_rmm = Fin 1000, pr_dpIn = Fin 4\<rparr>,
            \<lparr>pr_rmm = Fin 2000, pr_dpIn = Fin 0\<rparr>]"
    and "parseRows fp st_quad =
           [\<lparr>pr_rmm = Fin 1000, pr_dpIn = Fin 16\<rparr>, \<lparr>pr_rmm = Fin 2000, pr_dpIn = Fin 1\<rparr>]"
    and "parseRows fp st_dup =
           [\<lparr>pr_rmm = Fin 1000, pr_dpIn = Fin 16\<rparr>, \<lparr>pr_rmm = Fin 1000, pr_dpIn = Fin 1\<rparr>]"
  using assms
  by (simp_all add: exact_at_def parseRows_def st_demo_def st_negdp_def st_negr_def st_zero_def
        st_quad_def st_dup_def demo_defs parse_examples)

lemma settings_examples:
  "(gs_pUnits g_demo = Kpa) = False"
  "(gs_pUnits (mkSettings rho Dcm Pa) = Kpa) = False"
  "exact_at fp [2] \<Longrightarrow> usedRho fp g_demo = Fin 2"
  "exact_at fp [- 2] \<Longrightarrow> usedRho fp (mkSettings ''-2'' ''200'' Pa) = Fin (- 2)"
  by (simp_all add: exact_at_def usedRho_def jsor_def g_demo_def demo_defs parse_examples)

lemmas eval_rows =
  deriveRow_def Let_def mm2m_def kPa2Pa_def jmax_def sortRows_def jgt_def jsub_def

text \<open>The rows of the example stations, for every arithmetic that is exact on the numbers that occur.\<close>

lemma rows_demo:
  assumes "exact_at fp [0, 1, 2, 4, 8, 1000, 2000, - 1, - 2, 17 / 2]" "sqrt_exact_at fp [1, 2]"
  shows "usableStation fp st_demo"
    and "cs_rows (the (computeStation fp (Fin 2) D False st_demo)) =
           [\<lparr>cr_r = Fin 0, cr_dpPa = Fin 4, cr_u = Fin 2\<rparr>,
            \<lparr>cr_r = Fin 1, cr_dpPa = Fin 1, cr_u = Fin 1\<rparr>,
            \<lparr>cr_r = Fin 2, cr_dpPa = Fin 0, cr_u = Fin 0\<rparr>]"
proof -
  note e [simp] = assms [unfolded exact_at_def sqrt_exact_at_def, simplified]
  show u: "usableStation fp st_demo"
    by (simp add: usableStation_def st_demo_def demo_defs parse_examples)
  have p: "parseRows fp st_demo =
           [\<lparr>pr_rmm = Fin 1000, pr_dpIn = Fin 1\<rparr>, \<lparr>pr_rmm = Fin 0, pr_dpIn = Fin 4\<rparr>,
            \<lparr>pr_rmm = Fin 2000, pr_dpIn = Fin 0\<rparr>]"
    by (simp add: parseRows_def st_demo_def demo_defs parse_examples)
  show "cs_rows (the (computeStation fp (Fin 2) D False st_demo)) =
           [\<lparr>cr_r = Fin 0, cr_dpPa = Fin 4, cr_u = Fin 2\<rparr>,
            \<lparr>cr_r = Fin 1, cr_dpPa = Fin 1, cr_u = Fin 1\<rparr>,
            \<lparr>cr_r = Fin 2, cr_dpPa = Fin 0, cr_u = Fin 0\<rparr>]"
    by (simp add: rows_single [OF u] p eval_rows)
qed

lemma rows_negdp:
  assumes "exact_at fp [0, 1, 1000, - 1, - 2]" "sqrt_exact_at fp [1]"
  shows "usableStation fp st_negdp"
    and "cs_rows (the (computeStation fp (Fin (- 2)) D False st_negdp)) =
           [\<lparr>cr_r = Fin 0, cr_dpPa = Fin (- 1), cr_u = Fin 1\<rparr>,
            \<lparr>cr_r = Fin 1, cr_dpPa = Fin (- 1), cr_u = Fin 1\<rparr>]"
proof -
  note e [simp] = assms [unfolded exact_at_def sqrt_exact_at_def, simplified]
  show u: "usableStation fp st_negdp"
    by (simp add: usableStation_def st_negdp_def demo_defs parse_examples)
  have p: "parseRows fp st_negdp =
           [\<lparr>pr_rmm = Fin 0, pr_dpIn = Fin (- 1)\<rparr>, \<lparr>pr_rmm = Fin 1000, pr_dpIn = Fin (- 1)\<rparr>]"
    by (simp add: parseRows_def st_negdp_def demo_defs parse_examples)
  show "cs_rows (the (computeStation fp (Fin (- 2)) D False st_negdp)) =
           [\<lparr>cr_r = Fin 0, cr_dpPa = Fin (- 1), cr_u = Fin 1\<rparr>,
            \<lparr>cr_r = Fin 1, cr_dpPa = Fin (- 1), cr_u = Fin 1\<rparr>]"
    by (simp add: rows_single [OF u] p eval_rows)
qed

lemma rows_negr:
  assumes "exact_at fp [0, 3, 5, - 5, - 5000]"
  shows "usableStation fp st_negr"
    and "cs_rows (the (computeStation fp (Fin 2) D False st_negr)) =
           [\<lparr>cr_r = Fin (- 5), cr_dpPa = Fin 0, cr_u = Fin 0\<rparr>,
            \<lparr>cr_r = Fin 0, cr_dpPa = Fin 0, cr_u = Fin 0\<rparr>]"
proof -
  note e [simp] = assms [unfolded exact_at_def, simplified]
  show u: "usableStation fp st_negr"
    by (simp add: usableStation_def st_negr_def demo_defs parse_examples)
  have p: "parseRows fp st_negr =
           [\<lparr>pr_rmm = Fin 0, pr_dpIn = Fin 0\<rparr>, \<lparr>pr_rmm = Fin (- 5000), pr_dpIn = Fin 0\<rparr>]"
    by (simp add: parseRows_def st_negr_def demo_defs parse_examples)
  show "cs_rows (the (computeStation fp (Fin 2) D False st_negr)) =
           [\<lparr>cr_r = Fin (- 5), cr_dpPa = Fin 0, cr_u = Fin 0\<rparr>,
            \<lparr>cr_r = Fin 0, cr_dpPa = Fin 0, cr_u = Fin 0\<rparr>]"
    by (simp add: rows_single [OF u] p eval_rows)
qed

text \<open>
  C6.  For every input sequence of stations, the results of \<open>computeAll\<close> are, in input order,
  the computed records of exactly the stations whose x/D parses to a finite number and that
  have at least two rows whose radius and pressure both parse to finite numbers; the rows of
  every returned station are a rearrangement of the rows derived from the station's parsed
  rows, and (in an arithmetic with the properties of binary64) they are ascending by radius;
  the returned globals are the input settings; and with no surviving station the results are
  empty.
\<close>

theorem computeAll_contract:
  "list_all2 (\<lambda>cs st. computeStation fp (usedRho fp g) (usedD fp g) (gs_pUnits g = Kpa) st = Some cs
                      \<and> cs_id cs = st_id st
                      \<and> mset (cs_rows cs)
                          = mset (map (deriveRow fp (usedRho fp g) (gs_pUnits g = Kpa)) (parseRows fp st)))
     (results (computeAll fp sts g)) (filter (usableStation fp) sts)
   \<and> (sound_fp fp \<longrightarrow> (\<forall>cs\<in>set (results (computeAll fp sts g)). ascendingByRadius (cs_rows cs)))
   \<and> globals (computeAll fp sts g) = g
   \<and> (filter (usableStation fp) sts = [] \<longrightarrow> results (computeAll fp sts g) = [])"
proof -
  let ?f = "computeStation fp (usedRho fp g) (usedD fp g) (gs_pUnits g = Kpa)"
  have flt: "filter (\<lambda>x. ?f x \<noteq> None) sts = filter (usableStation fp) sts"
    by (simp add: computeStation_None_iff)
  have a: "list_all2 (\<lambda>cs st. ?f st = Some cs) (results (computeAll fp sts g))
             (filter (usableStation fp) sts)"
    using map_filter_all2 [of ?f sts] by (simp only: flt results_computeAll)
  have a': "list_all2 (\<lambda>cs st. ?f st = Some cs \<and> cs_id cs = st_id st
                      \<and> mset (cs_rows cs)
                          = mset (map (deriveRow fp (usedRho fp g) (gs_pUnits g = Kpa)) (parseRows fp st)))
              (results (computeAll fp sts g)) (filter (usableStation fp) sts)"
    by (rule list_all2_mono [OF a]) (simp add: computeStation_id computeStation_mset)
  have b: "sound_fp fp \<longrightarrow> (\<forall>cs\<in>set (results (computeAll fp sts g)). ascendingByRadius (cs_rows cs))"
  proof (intro impI ballI)
    fix cs assume s: "sound_fp fp" and "cs \<in> set (results (computeAll fp sts g))"
    then obtain st where st: "?f st = Some cs" using in_results by blast
    show "ascendingByRadius (cs_rows cs)" by (rule rows_ascending [OF s st])
  qed
  have c: "globals (computeAll fp sts g) = g" by (simp add: computeAll_def Let_def)
  have d: "filter (usableStation fp) sts = [] \<longrightarrow> results (computeAll fp sts g) = []"
    using a by auto
  from a' b c d show ?thesis by blast
qed

theorem computeAll_contract_witness:
  "sound_fp exact_fp
   \<and> (\<exists>cs. results (computeAll exact_fp [st_noxd, st_demo, st_onerow] g_demo) = [cs]
         \<and> cs_id cs = ''s1'' \<and> ascendingByRadius (cs_rows cs)
         \<and> mset (cs_rows cs) = {#\<lparr>cr_r = Fin 1, cr_dpPa = Fin 1, cr_u = Fin 1\<rparr>,
                                  \<lparr>cr_r = Fin 0, cr_dpPa = Fin 4, cr_u = Fin 2\<rparr>,
                                  \<lparr>cr_r = Fin 2, cr_dpPa = Fin 0, cr_u = Fin 0\<rparr>#}
         \<and> map cr_r (cs_rows cs) = [Fin 0, Fin 1, Fin 2])
   \<and> filter (usableStation exact_fp) [st_noxd, st_onerow] = []
   \<and> results (computeAll exact_fp [st_noxd, st_onerow] g_demo) = []
   \<and> globals (computeAll exact_fp [st_noxd, st_onerow] g_demo) = g_demo"
proof -
  note us = usable_examples [OF exact_at_exact_fp]
  note rd = rows_demo [OF exact_at_exact_fp sqrt_exact_at_exact_fp, simplified]
  have rho: "usedRho exact_fp g_demo = Fin 2" by (simp add: settings_examples exact_at_exact_fp)
  have f1: "filter (usableStation exact_fp) [st_noxd, st_demo, st_onerow] = [st_demo]"
    by (simp add: us)
  have f2: "filter (usableStation exact_fp) [st_noxd, st_onerow] = []"
    by (simp add: us)
  have i: "st_id st_demo = ''s1''" by (simp add: st_demo_def demo_defs)
  have d: "map (deriveRow exact_fp (Fin 2) False) (parseRows exact_fp st_demo) =
           [\<lparr>cr_r = Fin 1, cr_dpPa = Fin 1, cr_u = Fin 1\<rparr>,
            \<lparr>cr_r = Fin 0, cr_dpPa = Fin 4, cr_u = Fin 2\<rparr>,
            \<lparr>cr_r = Fin 2, cr_dpPa = Fin 0, cr_u = Fin 0\<rparr>]"
    by (simp add: parseRows_examples [OF exact_at_exact_fp] eval_rows)
  have r: "results (computeAll exact_fp [st_noxd, st_demo, st_onerow] g_demo) =
           [the (computeStation exact_fp (Fin 2) (usedD exact_fp g_demo) False st_demo)]"
    unfolding results_eq f1 by (simp add: rho settings_examples)
  define cs where "cs = the (computeStation exact_fp (Fin 2) (usedD exact_fp g_demo) False st_demo)"
  have r': "results (computeAll exact_fp [st_noxd, st_demo, st_onerow] g_demo) = [cs]"
    by (simp add: r cs_def)
  note c = computeAll_contract [of exact_fp g_demo "[st_noxd, st_demo, st_onerow]", unfolded f1 r']
  from c have c1: "cs_id cs = ''s1''" by (simp add: i)
  from c have "mset (cs_rows cs)
        = mset (map (deriveRow exact_fp (Fin 2) False) (parseRows exact_fp st_demo))"
    by (simp add: rho settings_examples)
  then have c2: "mset (cs_rows cs) = {#\<lparr>cr_r = Fin 1, cr_dpPa = Fin 1, cr_u = Fin 1\<rparr>,
                                  \<lparr>cr_r = Fin 0, cr_dpPa = Fin 4, cr_u = Fin 2\<rparr>,
                                  \<lparr>cr_r = Fin 2, cr_dpPa = Fin 0, cr_u = Fin 0\<rparr>#}"
    by (simp only: d mset.simps)
  from c sound_exact_fp have c3: "ascendingByRadius (cs_rows cs)" by simp
  have c4: "map cr_r (cs_rows cs) = [Fin 0, Fin 1, Fin 2]"
    unfolding cs_def by (simp add: rd(2))
  have 1: "\<exists>cs. results (computeAll exact_fp [st_noxd, st_demo, st_onerow] g_demo) = [cs]
         \<and> cs_id cs = ''s1'' \<and> ascendingByRadius (cs_rows cs)
         \<and> mset (cs_rows cs) = {#\<lparr>cr_r = Fin 1, cr_dpPa = Fin 1, cr_u = Fin 1\<rparr>,
                                  \<lparr>cr_r = Fin 0, cr_dpPa = Fin 4, cr_u = Fin 2\<rparr>,
                                  \<lparr>cr_r = Fin 2, cr_dpPa = Fin 0, cr_u = Fin 0\<rparr>#}
         \<and> map cr_r (cs_rows cs) = [Fin 0, Fin 1, Fin 2]"
    by (rule exI [of _ cs]) (intro conjI r' c1 c3 c2 c4)
  from computeAll_contract [of exact_fp g_demo "[st_noxd, st_onerow]"] f2
  have 3: "results (computeAll exact_fp [st_noxd, st_onerow] g_demo) = []"
    and 4: "globals (computeAll exact_fp [st_noxd, st_onerow] g_demo) = g_demo"
    by simp_all
  from sound_exact_fp 1 f2 3 4 show ?thesis by blast
qed


section \<open>Density and diameter taken from the settings\<close>

text \<open>
  C9 as stated fails.  The settings text "-Infinity" parses to minus infinity, which is
  truthy, so in every arithmetic the density used is minus infinity and so is the diameter;
  and the texts "-3" and "-300" give the density -3 and the diameter -3 m (where the
  arithmetic does not round -3 and -300), not the defaults.
\<close>

theorem settings_default_counterexample:
  "(\<forall>fp. usedRho fp (mkSettings ''-Infinity'' ''-Infinity'' Kpa) = NInf
         \<and> usedD fp (mkSettings ''-Infinity'' ''-Infinity'' Kpa) = NInf)
   \<and> usedRho exact_fp (mkSettings ''-3'' ''-300'' Kpa) = Fin (- 3)
   \<and> usedD exact_fp (mkSettings ''-3'' ''-300'' Kpa) = Fin (- 3)
   \<and> \<not> (\<exists>x. 0 < x \<and> usedRho exact_fp (mkSettings ''-3'' ''-300'' Kpa) = Fin x)
   \<and> usedRho exact_fp (mkSettings ''-3'' ''-300'' Kpa) \<noteq> Fin lit_1_204"
  by (simp add: usedRho_def usedD_def cm2m_def jsor_def demo_defs parse_examples lit_1_204_def)

text \<open>The same for every arithmetic that does not round -3 and -300.\<close>

lemma settings_negative:
  assumes "exact_at fp [- 3, - 300]"
  shows "usedRho fp (mkSettings ''-3'' ''-300'' Kpa) = Fin (- 3)"
    and "usedD fp (mkSettings ''-3'' ''-300'' Kpa) = Fin (- 3)"
  using assms
  by (simp_all add: exact_at_def usedRho_def usedD_def cm2m_def jsor_def demo_defs parse_examples)

text \<open>
  C9, amended.  For every settings input no error is raised.  The default density 1.204
  (respectively the default diameter 2.54 cm) is used exactly when the settings text parses
  to NaN or to zero; any other parsed value, negative and infinite ones included, is used as
  parsed.  The density used is therefore never NaN and never zero; the diameter used is the
  chosen value divided by 100 in the arithmetic of the program.  Every computed station
  carries these values.
\<close>

theorem used_settings:
  "usedRho fp g = (if parseFloat fp (gs_rho g) = NaN \<or> parseFloat fp (gs_rho g) = Fin 0
                   then Fin lit_1_204 else parseFloat fp (gs_rho g))
   \<and> usedD fp g = jdiv fp (if parseFloat fp (gs_Dcm g) = NaN \<or> parseFloat fp (gs_Dcm g) = Fin 0
                            then Fin lit_2_54 else parseFloat fp (gs_Dcm g)) (Fin 100)
   \<and> usedRho fp g \<noteq> NaN \<and> usedRho fp g \<noteq> Fin 0
   \<and> \<bar>lit_1_204 - 1204 / 1000\<bar> < 1 / 10 ^ 16 \<and> \<bar>lit_2_54 - 254 / 100\<bar> < 1 / 10 ^ 15
   \<and> (\<forall>cs\<in>set (results (computeAll fp sts g)). cs_rho cs = usedRho fp g \<and> cs_D cs = usedD fp g)"
proof -
  have 1: "usedRho fp g = (if parseFloat fp (gs_rho g) = NaN \<or> parseFloat fp (gs_rho g) = Fin 0
                   then Fin lit_1_204 else parseFloat fp (gs_rho g))"
    by (simp add: usedRho_def jsor_def)
  have 2: "usedD fp g = jdiv fp (if parseFloat fp (gs_Dcm g) = NaN \<or> parseFloat fp (gs_Dcm g) = Fin 0
                            then Fin lit_2_54 else parseFloat fp (gs_Dcm g)) (Fin 100)"
    by (simp add: usedD_def cm2m_def jsor_def)
  have 3: "usedRho fp g \<noteq> NaN \<and> usedRho fp g \<noteq> Fin 0"
    using literal_values(4) by (simp add: 1)
  have 5: "\<forall>cs\<in>set (results (computeAll fp sts g)). cs_rho cs = usedRho fp g \<and> cs_D cs = usedD fp g"
    using in_results computeStation_rho_D by blast
  from 1 2 3 literal_values(1,2) 5 show ?thesis by blast
qed

theorem used_settings_witness:
  "usedRho exact_fp (mkSettings ''abc'' ''0'' Pa) = Fin lit_1_204
   \<and> usedD exact_fp (mkSettings ''abc'' ''0'' Pa) = Fin (lit_2_54 / 100)
   \<and> usedRho exact_fp g_demo = Fin 2 \<and> usedD exact_fp g_demo = Fin 2
   \<and> (\<exists>cs. results (computeAll exact_fp [st_demo] g_demo) = [cs] \<and> cs_rho cs = Fin 2 \<and> cs_D cs = Fin 2)"
proof -
  have p: "parseFloat exact_fp (gs_rho (mkSettings ''abc'' ''0'' Pa)) = NaN"
          "parseFloat exact_fp (gs_Dcm (mkSettings ''abc'' ''0'' Pa)) = Fin 0"
          "parseFloat exact_fp (gs_rho g_demo) = Fin 2"
          "parseFloat exact_fp (gs_Dcm g_demo) = Fin 200"
    by (simp_all add: g_demo_def demo_defs parse_examples)
  from used_settings [of exact_fp "mkSettings ''abc'' ''0'' Pa" "[]"] p
  have 1: "usedRho exact_fp (mkSettings ''abc'' ''0'' Pa) = Fin lit_1_204"
    and 2: "usedD exact_fp (mkSettings ''abc'' ''0'' Pa) = Fin (lit_2_54 / 100)"
    using literal_values(5) by simp_all
  from used_settings [of exact_fp g_demo "[st_demo]"] p
  have 3: "usedRho exact_fp g_demo = Fin 2" and d3: "usedD exact_fp g_demo = Fin 2"
    and a: "\<forall>cs\<in>set (results (computeAll exact_fp [st_demo] g_demo)).
              cs_rho cs = usedRho exact_fp g_demo \<and> cs_D cs = usedD exact_fp g_demo"
    by simp_all
  obtain cs where cs: "results (computeAll exact_fp [st_demo] g_demo) = [cs]"
    by (simp add: results_single usable_examples [OF exact_at_exact_fp])
  with a 3 d3 have 4: "\<exists>cs. results (computeAll exact_fp [st_demo] g_demo) = [cs]
                          \<and> cs_rho cs = Fin 2 \<and> cs_D cs = Fin 2"
    by simp
  from 1 2 3 d3 4 show ?thesis by blast
qed


section \<open>Row-level velocity\<close>

text \<open>Signs through the operations of the pitot formula.\<close>

lemma jmax_zero_nonneg: "jle (Fin 0) x \<Longrightarrow> jmax (Fin 0) x = x"
  by (cases x) (auto simp: jmax_def)

lemma jmax_zero_nonpos: "jle x (Fin 0) \<Longrightarrow> jmax (Fin 0) x = Fin 0"
  by (cases x) (auto simp: jmax_def)

lemma jmax_zero_ge: "x \<noteq> NaN \<Longrightarrow> jle (Fin 0) (jmax (Fin 0) x)"
  by (cases x) (auto simp: jmax_def)

lemma jmul_pos_nonneg:
  "sound_fp fp \<Longrightarrow> 0 < c \<Longrightarrow> jle (Fin 0) x \<Longrightarrow> jle (Fin 0) (jmul fp (Fin c) x)"
  by (cases x) (auto simp: sound_rnd_nonneg)

lemma jmul_pos_nonpos:
  "sound_fp fp \<Longrightarrow> 0 < c \<Longrightarrow> jle x (Fin 0) \<Longrightarrow> jle (jmul fp (Fin c) x) (Fin 0)"
  by (cases x) (auto simp: sound_rnd_nonpos mult_nonneg_nonpos)

lemma jmul_pos_NaN: "sound_fp fp \<Longrightarrow> 0 < c \<Longrightarrow> x \<noteq> NaN \<Longrightarrow> jmul fp (Fin c) x \<noteq> NaN"
  by (cases x) (auto simp: sound_rnd_NaN)

lemma jdiv_pos_nonneg:
  "sound_fp fp \<Longrightarrow> 0 < c \<Longrightarrow> jle (Fin 0) x \<Longrightarrow> jle (Fin 0) (jdiv fp x (Fin c))"
  by (cases x) (auto simp: sound_rnd_nonneg)

lemma jdiv_pos_nonpos:
  "sound_fp fp \<Longrightarrow> 0 < c \<Longrightarrow> jle x (Fin 0) \<Longrightarrow> jle (jdiv fp x (Fin c)) (Fin 0)"
  by (cases x) (auto simp: sound_rnd_nonpos divide_nonpos_pos)

lemma jdiv_finite_NaN: "sound_fp fp \<Longrightarrow> c \<noteq> 0 \<Longrightarrow> x \<noteq> NaN \<Longrightarrow> jdiv fp x (Fin c) \<noteq> NaN"
  by (cases x) (auto simp: sound_rnd_NaN)

lemma jsqrt_nonneg: "sound_fp fp \<Longrightarrow> jle (Fin 0) x \<Longrightarrow> jle (Fin 0) (jsqrt fp x)"
  by (cases x) (auto simp: sound_fsqrt)

lemma jle_not_NaN: "jle x y \<Longrightarrow> x \<noteq> NaN \<and> y \<noteq> NaN"
  by (cases x; cases y) auto

lemma not_jle_zero: "x \<noteq> NaN \<Longrightarrow> \<not> jle (Fin 0) x \<Longrightarrow> jlt x (Fin 0)"
  by (cases x) auto

lemma dpPa_spec_NaN: "sound_fp fp \<Longrightarrow> dpPa_spec fp k (Fin b) \<noteq> NaN"
  by (simp add: dpPa_spec_def sound_rnd_NaN)

text \<open>The velocity is never negative, and it is a number unless the density is not finite or zero.\<close>

lemma pitot_sign:
  assumes "sound_fp fp"
  shows "jle (Fin 0) (jsqrt fp (jmax (Fin 0) x)) \<or> jsqrt fp (jmax (Fin 0) x) = NaN"
    and "x \<noteq> NaN \<Longrightarrow> jle (Fin 0) (jsqrt fp (jmax (Fin 0) x))"
proof -
  show 2: "jle (Fin 0) (jsqrt fp (jmax (Fin 0) x))" if "x \<noteq> NaN"
    by (rule jsqrt_nonneg [OF assms jmax_zero_ge [OF that]])
  show "jle (Fin 0) (jsqrt fp (jmax (Fin 0) x)) \<or> jsqrt fp (jmax (Fin 0) x) = NaN"
  proof (cases "x = NaN")
    case True
    then show ?thesis by (simp add: jmax_def)
  next
    case False
    then show ?thesis using 2 by simp
  qed
qed

text \<open>With a positive finite density the velocity is the one the specification gives.\<close>

lemma pitot_pos:
  assumes "sound_fp fp" "0 < \<rho>" "dpPa \<noteq> NaN"
  shows "jsqrt fp (jmax (Fin 0) (jdiv fp (jmul fp (Fin 2) dpPa) (Fin \<rho>))) = velocity_spec fp (Fin \<rho>) dpPa"
proof (cases "jle (Fin 0) dpPa")
  case True
  have "jle (Fin 0) (jdiv fp (jmul fp (Fin 2) dpPa) (Fin \<rho>))"
    by (intro jdiv_pos_nonneg jmul_pos_nonneg assms True) simp
  then show ?thesis using True by (simp add: velocity_spec_def jmax_zero_nonneg)
next
  case False
  with assms(3) have "jle dpPa (Fin 0)" by (intro jlt_imp_jle not_jle_zero)
  then have "jle (jdiv fp (jmul fp (Fin 2) dpPa) (Fin \<rho>)) (Fin 0)"
    by (intro jdiv_pos_nonpos jmul_pos_nonpos assms) simp_all
  then show ?thesis using False by (simp add: velocity_spec_def jmax_zero_nonpos)
qed

lemma deriveRow_pos:
  assumes "sound_fp fp" "0 < \<rho>" "pr_dpIn p = Fin b"
  shows "deriveRow fp (Fin \<rho>) k p = expectedRow fp (Fin \<rho>) k p"
proof -
  have "dpPa_spec fp k (pr_dpIn p) \<noteq> NaN" using assms(1,3) by (simp add: dpPa_spec_NaN)
  from pitot_pos [OF assms(1,2) this]
  have "cr_u (deriveRow fp (Fin \<rho>) k p) = cr_u (expectedRow fp (Fin \<rho>) k p)"
    by (simp add: deriveRow_u expectedRow_def)
  moreover have "cr_r (deriveRow fp (Fin \<rho>) k p) = cr_r (expectedRow fp (Fin \<rho>) k p)"
    by (simp add: deriveRow_r expectedRow_def)
  moreover have "cr_dpPa (deriveRow fp (Fin \<rho>) k p) = cr_dpPa (expectedRow fp (Fin \<rho>) k p)"
    by (simp add: deriveRow_dpPa expectedRow_def)
  ultimately show ?thesis by simp
qed

lemma velocity_spec_NaN:
  assumes "sound_fp fp" "0 < \<rho>"
  shows "velocity_spec fp (Fin \<rho>) dpPa \<noteq> NaN"
proof (cases "jle (Fin 0) dpPa")
  case True
  have "jle (Fin 0) (jsqrt fp (jdiv fp (jmul fp (Fin 2) dpPa) (Fin \<rho>)))"
    by (intro jsqrt_nonneg jdiv_pos_nonneg jmul_pos_nonneg assms True) simp
  then show ?thesis using True by (auto simp: velocity_spec_def dest: jle_not_NaN)
next
  case False
  then show ?thesis by (simp add: velocity_spec_def)
qed


lemma jsqrt_exact: "0 \<le> a \<Longrightarrow> jsqrt exact_fp (Fin a) = Fin (sqrt a)"
  by simp



text \<open>
  C1 as stated fails for a negative density, which the settings can supply: with the
  density text "-2" in pascal mode, a row with \<Delta>p = -1 Pa gets velocity 1, not 0.
  Every number that occurs is a double, so binary64 computes these values.
\<close>

theorem velocity_negative_density_counterexample:
  "\<exists>cs. results (computeAll exact_fp [st_negdp] (mkSettings ''-2'' ''200'' Pa)) = [cs]
        \<and> map cr_dpPa (cs_rows cs) = [Fin (- 1), Fin (- 1)]
        \<and> map cr_u (cs_rows cs) = [Fin 1, Fin 1]"
  using rows_negdp [OF exact_at_exact_fp sqrt_exact_at_exact_fp]
  by (simp add: results_single settings_examples exact_at_exact_fp)

text \<open>The same for every arithmetic that does not round the numbers that occur.\<close>

lemma velocity_negative_density:
  assumes "exact_at fp [0, 1, 1000, - 1, - 2]" "sqrt_exact_at fp [1]"
  shows "\<exists>cs. results (computeAll fp [st_negdp] (mkSettings ''-2'' ''200'' Pa)) = [cs]
        \<and> map cr_dpPa (cs_rows cs) = [Fin (- 1), Fin (- 1)]
        \<and> map cr_u (cs_rows cs) = [Fin 1, Fin 1]"
proof -
  have "exact_at fp [- 2]" using assms(1) by (simp add: exact_at_def)
  then show ?thesis using rows_negdp [OF assms]
    by (simp add: results_single settings_examples)
qed

text \<open>
  C1, amended.  Whenever the density used is positive and finite: every row of the station's
  text whose radius and \<Delta>p both parse to finite numbers yields one computed row, with radius
  mm/1000, \<Delta>p in pascals equal to 1000 \<Delta>p in kpa mode and to \<Delta>p in pa mode, and velocity
  sqrt (2 \<Delta>p_Pa / rho) when \<Delta>p_Pa is not negative and exactly 0 otherwise, each operation
  being the program's floating-point operation (so \<Delta>p_Pa and the velocity can be infinite);
  the velocity is never NaN.
\<close>

theorem velocity_formula:
  assumes "cs \<in> set (results (computeAll fp sts g))" and "sound_fp fp"
    and "usedRho fp g = Fin \<rho>" and "0 < \<rho>"
  shows "(\<exists>st\<in>set sts.
           computeStation fp (usedRho fp g) (usedD fp g) (gs_pUnits g = Kpa) st = Some cs
           \<and> (\<forall>p\<in>set (parseRows fp st). isFinite (pr_rmm p) \<and> isFinite (pr_dpIn p))
           \<and> mset (cs_rows cs)
               = mset (map (expectedRow fp (Fin \<rho>) (gs_pUnits g = Kpa)) (parseRows fp st)))
       \<and> (\<forall>row\<in>set (cs_rows cs). cr_u row \<noteq> NaN)"
proof -
  let ?k = "gs_pUnits g = Kpa"
  from in_results [OF assms(1)] obtain st where st: "st \<in> set sts"
    "computeStation fp (Fin \<rho>) (usedD fp g) ?k st = Some cs" unfolding assms(3) by blast
  have fin: "\<forall>p\<in>set (parseRows fp st). isFinite (pr_rmm p) \<and> isFinite (pr_dpIn p)"
    using parseRows_finite by (auto simp: isFinite_iff)
  have eq: "map (deriveRow fp (Fin \<rho>) ?k) (parseRows fp st)
        = map (expectedRow fp (Fin \<rho>) ?k) (parseRows fp st)"
  proof (rule map_cong [OF refl])
    fix p assume "p \<in> set (parseRows fp st)"
    then obtain a b where "pr_rmm p = Fin a" "pr_dpIn p = Fin b"
      using parseRows_finite by blast
    then show "deriveRow fp (Fin \<rho>) ?k p = expectedRow fp (Fin \<rho>) ?k p"
      by (intro deriveRow_pos [OF assms(2,4)])
  qed
  have m: "mset (cs_rows cs) = mset (map (expectedRow fp (Fin \<rho>) ?k) (parseRows fp st))"
    by (simp only: computeStation_mset [OF st(2)] eq)
  have "\<forall>row\<in>set (cs_rows cs). cr_u row \<noteq> NaN"
  proof
    fix row assume "row \<in> set (cs_rows cs)"
    then have "row \<in># mset (map (expectedRow fp (Fin \<rho>) ?k) (parseRows fp st))"
      unfolding m [symmetric] by simp
    then obtain p where "row = expectedRow fp (Fin \<rho>) ?k p" by auto
    then show "cr_u row \<noteq> NaN"
      by (simp add: expectedRow_def velocity_spec_NaN [OF assms(2,4)])
  qed
  with st fin m show ?thesis unfolding assms(3) by blast
qed

theorem velocity_formula_witness:
  "sound_fp exact_fp \<and> usedRho exact_fp g_demo = Fin 2 \<and> (0 :: real) < 2
   \<and> (\<exists>cs. cs \<in> set (results (computeAll exact_fp [st_demo] g_demo))
        \<and> mset (cs_rows cs) = mset (map (expectedRow exact_fp (Fin 2) False) (parseRows exact_fp st_demo))
        \<and> map cr_u (map (expectedRow exact_fp (Fin 2) False) (parseRows exact_fp st_demo))
            = [Fin 1, Fin 2, Fin 0])"
proof -
  have rho: "usedRho exact_fp g_demo = Fin 2" by (simp add: settings_examples exact_at_exact_fp)
  obtain cs where cs: "cs \<in> set (results (computeAll exact_fp [st_demo] g_demo))"
    by (simp add: results_single usable_examples [OF exact_at_exact_fp])
  note v = velocity_formula [OF cs sound_exact_fp rho]
  from v have a: "mset (cs_rows cs)
        = mset (map (expectedRow exact_fp (Fin 2) False) (parseRows exact_fp st_demo))"
    by (simp add: settings_examples)
  have b: "map cr_u (map (expectedRow exact_fp (Fin 2) False) (parseRows exact_fp st_demo))
        = [Fin 1, Fin 2, Fin 0]"
    by (simp add: parseRows_examples [OF exact_at_exact_fp] expectedRow_def dpPa_spec_def
          velocity_spec_def)
  from sound_exact_fp rho cs a b show ?thesis by auto
qed



text \<open>The same for every arithmetic that does not round the numbers that occur.\<close>

lemma unit_mode_negative_density:
  assumes "exact_at fp [4, - 2, - 8]" "sqrt_exact_at fp [2]"
  shows "usedRho fp (mkSettings ''-2'' ''200'' Pa) = Fin (- 2)"
    and "cr_u (deriveRow fp (Fin (- 2)) False \<lparr>pr_rmm = Fin 0, pr_dpIn = Fin (- 4)\<rparr>) = Fin 2"
  using assms
  by (simp_all add: exact_at_def sqrt_exact_at_def settings_examples eval_rows)





text \<open>
  C8 as stated fails for a radius text that parses to a negative number: the row with
  radius "-5000" mm becomes a computed row with radius -5 m.  Every number that occurs is a
  double, so binary64 computes these values.
\<close>

theorem negative_radius_counterexample:
  "\<exists>cs. results (computeAll exact_fp [st_negr] g_demo) = [cs]
        \<and> map cr_r (cs_rows cs) = [Fin (- 5), Fin 0]
        \<and> \<not> jle (Fin 0) (Fin (- 5))"
  using rows_negr [OF exact_at_exact_fp]
  by (simp add: results_single settings_examples exact_at_exact_fp)

text \<open>The same for every arithmetic that does not round the numbers that occur.\<close>

lemma negative_radius:
  assumes "exact_at fp [0, 2, 3, 5, - 5, - 5000]"
  shows "\<exists>cs. results (computeAll fp [st_negr] g_demo) = [cs]
        \<and> map cr_r (cs_rows cs) = [Fin (- 5), Fin 0]"
proof -
  have "exact_at fp [2]" "exact_at fp [0, 3, 5, - 5, - 5000]"
    using assms by (simp_all add: exact_at_def)
  then show ?thesis using rows_negr [of fp]
    by (simp add: results_single settings_examples)
qed

text \<open>
  C8, amended.  Every computed row of every returned station comes from one of that
  station's parsed rows.  Its velocity is not negative whenever the density used is finite
  (it can be plus infinity), and is not negative or NaN in general; a negative \<Delta>p_Pa
  gives the velocity 0 when the density is positive and finite.  Its radius is the parsed
  radius divided by 1000: not negative when the parsed radius is not negative, and not
  positive when the parsed radius is not positive.
\<close>

theorem row_invariant:
  assumes "sound_fp fp" and "cs \<in> set (results (computeAll fp sts g))" and "row \<in> set (cs_rows cs)"
  shows "\<exists>st\<in>set sts.
           computeStation fp (usedRho fp g) (usedD fp g) (gs_pUnits g = Kpa) st = Some cs
           \<and> (\<exists>p\<in>set (parseRows fp st).
                  row = deriveRow fp (usedRho fp g) (gs_pUnits g = Kpa) p
                  \<and> cr_r row = jdiv fp (pr_rmm p) (Fin 1000)
                  \<and> (jle (Fin 0) (pr_rmm p) \<longrightarrow> jle (Fin 0) (cr_r row))
                  \<and> (jle (pr_rmm p) (Fin 0) \<longrightarrow> jle (cr_r row) (Fin 0))
                  \<and> (jle (Fin 0) (cr_u row) \<or> cr_u row = NaN)
                  \<and> (isFinite (usedRho fp g) \<longrightarrow> jle (Fin 0) (cr_u row))
                  \<and> (isFinite (usedRho fp g) \<and> jlt (Fin 0) (usedRho fp g) \<and> jlt (cr_dpPa row) (Fin 0)
                       \<longrightarrow> cr_u row = Fin 0))"
proof -
  let ?k = "gs_pUnits g = Kpa"
  let ?rho = "usedRho fp g"
  from in_results [OF assms(2)] obtain st where st: "st \<in> set sts"
    "computeStation fp ?rho (usedD fp g) ?k st = Some cs" by blast
  from assms(3) obtain p where p: "p \<in> set (parseRows fp st)" "row = deriveRow fp ?rho ?k p"
    by (auto simp: computeStation_rows [OF st(2)] set_sortRows)
  from parseRows_finite [OF p(1)] obtain a b where ab: "pr_rmm p = Fin a" "pr_dpIn p = Fin b"
    by blast
  let ?dp = "dpPa_spec fp ?k (Fin b)"
  let ?x = "jdiv fp (jmul fp (Fin 2) ?dp) ?rho"
  have u: "cr_u row = jsqrt fp (jmax (Fin 0) ?x)" by (simp add: p(2) deriveRow_u ab)
  have dpn: "?dp \<noteq> NaN" by (rule dpPa_spec_NaN [OF assms(1)])
  have 1: "cr_r row = jdiv fp (pr_rmm p) (Fin 1000)" by (simp add: p(2) deriveRow_r)
  have 2: "jle (Fin 0) (pr_rmm p) \<longrightarrow> jle (Fin 0) (cr_r row)"
    unfolding 1 using jdiv_pos_nonneg [OF assms(1), of 1000] by simp
  have 3: "jle (pr_rmm p) (Fin 0) \<longrightarrow> jle (cr_r row) (Fin 0)"
    unfolding 1 using jdiv_pos_nonpos [OF assms(1), of 1000] by simp
  have 4: "jle (Fin 0) (cr_u row) \<or> cr_u row = NaN"
    unfolding u by (rule pitot_sign(1) [OF assms(1)])
  have 5: "isFinite ?rho \<longrightarrow> jle (Fin 0) (cr_u row)"
  proof
    assume "isFinite ?rho"
    then obtain \<rho> where r: "?rho = Fin \<rho>" by (auto simp: isFinite_iff)
    have "\<rho> \<noteq> 0" using r literal_values(4) by (auto simp: usedRho_def jsor_def split: if_splits)
    then have "?x \<noteq> NaN" unfolding r
      by (intro jdiv_finite_NaN jmul_pos_NaN assms(1) dpn) simp_all
    then show "jle (Fin 0) (cr_u row)" unfolding u by (rule pitot_sign(2) [OF assms(1)])
  qed
  have 6: "isFinite ?rho \<and> jlt (Fin 0) ?rho \<and> jlt (cr_dpPa row) (Fin 0) \<longrightarrow> cr_u row = Fin 0"
  proof
    assume h: "isFinite ?rho \<and> jlt (Fin 0) ?rho \<and> jlt (cr_dpPa row) (Fin 0)"
    then obtain \<rho> where r: "?rho = Fin \<rho>" "0 < \<rho>" by (cases ?rho) auto
    from h have "jlt ?dp (Fin 0)" by (simp add: p(2) deriveRow_dpPa ab)
    then have "\<not> jle (Fin 0) ?dp" by (cases ?dp) auto
    with pitot_pos [OF assms(1) r(2) dpn] show "cr_u row = Fin 0"
      unfolding u r(1) by (simp add: velocity_spec_def)
  qed
  from st p(1) p(2) 1 2 3 4 5 6 show ?thesis by blast
qed

theorem row_invariant_witness:
  "sound_fp exact_fp
   \<and> (\<exists>cs row. cs \<in> set (results (computeAll exact_fp [st_demo] g_demo)) \<and> row \<in> set (cs_rows cs)
          \<and> cr_r row = Fin 1 \<and> cr_u row = Fin 1 \<and> jle (Fin 0) (cr_r row) \<and> jle (Fin 0) (cr_u row))"
proof -
  have rho: "usedRho exact_fp g_demo = Fin 2" by (simp add: settings_examples exact_at_exact_fp)
  note rd = rows_demo [OF exact_at_exact_fp sqrt_exact_at_exact_fp, simplified]
  obtain cs where cs: "cs \<in> set (results (computeAll exact_fp [st_demo] g_demo))"
       and e: "cs = the (computeStation exact_fp (Fin 2) (usedD exact_fp g_demo) False st_demo)"
    by (simp add: results_single rd(1) rho settings_examples)
  have m: "\<lparr>cr_r = Fin 1, cr_dpPa = Fin 1, cr_u = Fin 1\<rparr> \<in> set (cs_rows cs)"
    unfolding e by (simp add: rd(2))
  from row_invariant [OF sound_exact_fp cs m]
  have "jle (Fin 0) (cr_u \<lparr>cr_r = Fin 1, cr_dpPa = Fin 1, cr_u = Fin 1\<rparr>)"
    by (auto simp: rho)
  with cs m sound_exact_fp show ?thesis
    by (intro conjI exI [of _ cs] exI [of _ "\<lparr>cr_r = Fin 1, cr_dpPa = Fin 1, cr_u = Fin 1\<rparr>"]) simp_all
qed


section \<open>Centerline velocity\<close>

lemma jsnth_simps [simp]:
  "jsnth (x # xs) 0 = x" "jsnth (x # y # xs) (Suc 0) = y" "jsnth [] i = NaN"
  "jsnth (x # xs) (Suc i) = jsnth xs i"
  by (simp_all add: jsnth_def)

lemma centerline_two:
  "fst (centerline fp (r1 # r2 # rs) (u1 # u2 # us) T) = centerline_spec fp r1 u1 r2 u2"
  by (simp add: centerline_def centerline_spec_def linear_at_zero_def quadratic_at_zero_def Let_def)

lemma rows_two:
  assumes "computeStation fp rho D k st = Some cs"
  obtains a b rest where "cs_rows cs = a # b # rest"
proof -
  from computeStation_length [OF assms] have "2 \<le> length (cs_rows cs)" by simp
  then obtain a b rest where "cs_rows cs = a # b # rest"
    by (cases "cs_rows cs"; cases "tl (cs_rows cs)") auto
  then show ?thesis by (rule that)
qed

lemma rows_first_smallest:
  assumes "sound_fp fp" "computeStation fp rho D k st = Some cs" "cs_rows cs = a # rest"
    "row \<in> set (cs_rows cs)"
  shows "jle (cr_r a) (cr_r row)"
proof (cases "row = a")
  case True
  have "a \<in> set (cs_rows cs)" by (simp add: assms(3))
  from rows_rounded [OF assms(1,2) this] have "cr_r a \<noteq> NaN" by (rule rounded_not_NaN)
  then show ?thesis unfolding True by (rule jle_refl)
next
  case False
  with assms(3,4) have "row \<in> set rest" by simp
  with rows_ascending [OF assms(1,2)] assms(3) show ?thesis
    by (simp add: ascendingByRadius_def)
qed

text \<open>The two further example stations, for every arithmetic that is exact on the numbers that occur.\<close>

lemma rows_quad:
  assumes "exact_at fp [1, 2, 5, 16, 32, 1000, 2000, - 1]" "sqrt_exact_at fp [1, 4]"
  shows "usableStation fp st_quad"
    and "cs_rows (the (computeStation fp (Fin 2) D False st_quad)) =
           [\<lparr>cr_r = Fin 1, cr_dpPa = Fin 16, cr_u = Fin 4\<rparr>,
            \<lparr>cr_r = Fin 2, cr_dpPa = Fin 1, cr_u = Fin 1\<rparr>]"
proof -
  note e [simp] = assms [unfolded exact_at_def sqrt_exact_at_def, simplified]
  show u: "usableStation fp st_quad"
    by (simp add: usableStation_def st_quad_def demo_defs parse_examples)
  have p: "parseRows fp st_quad =
           [\<lparr>pr_rmm = Fin 1000, pr_dpIn = Fin 16\<rparr>, \<lparr>pr_rmm = Fin 2000, pr_dpIn = Fin 1\<rparr>]"
    by (simp add: parseRows_def st_quad_def demo_defs parse_examples)
  show "cs_rows (the (computeStation fp (Fin 2) D False st_quad)) =
           [\<lparr>cr_r = Fin 1, cr_dpPa = Fin 16, cr_u = Fin 4\<rparr>,
            \<lparr>cr_r = Fin 2, cr_dpPa = Fin 1, cr_u = Fin 1\<rparr>]"
    by (simp add: rows_single [OF u] p eval_rows)
qed

lemma rows_dup:
  assumes "exact_at fp [0, 1, 2, 6, 16, 32, 1000]" "sqrt_exact_at fp [1, 4]"
  shows "usableStation fp st_dup"
    and "cs_rows (the (computeStation fp (Fin 2) D False st_dup)) =
           [\<lparr>cr_r = Fin 1, cr_dpPa = Fin 16, cr_u = Fin 4\<rparr>,
            \<lparr>cr_r = Fin 1, cr_dpPa = Fin 1, cr_u = Fin 1\<rparr>]"
proof -
  note e [simp] = assms [unfolded exact_at_def sqrt_exact_at_def, simplified]
  show u: "usableStation fp st_dup"
    by (simp add: usableStation_def st_dup_def demo_defs parse_examples)
  have p: "parseRows fp st_dup =
           [\<lparr>pr_rmm = Fin 1000, pr_dpIn = Fin 16\<rparr>, \<lparr>pr_rmm = Fin 1000, pr_dpIn = Fin 1\<rparr>]"
    by (simp add: parseRows_def st_dup_def demo_defs parse_examples)
  show "cs_rows (the (computeStation fp (Fin 2) D False st_dup)) =
           [\<lparr>cr_r = Fin 1, cr_dpPa = Fin 16, cr_u = Fin 4\<rparr>,
            \<lparr>cr_r = Fin 1, cr_dpPa = Fin 1, cr_u = Fin 1\<rparr>]"
    by (simp add: rows_single [OF u] p eval_rows)
qed

lemma rows_zero:
  assumes "exact_at fp [0, 1, 2, 4, 8, 1000, 2000, - 1]" "sqrt_exact_at fp [2]"
  shows "usableStation fp st_zero"
    and "cs_rows (the (computeStation fp (Fin 2) D False st_zero)) =
           [\<lparr>cr_r = Fin 0, cr_dpPa = Fin 0, cr_u = Fin 0\<rparr>,
            \<lparr>cr_r = Fin 1, cr_dpPa = Fin 4, cr_u = Fin 2\<rparr>,
            \<lparr>cr_r = Fin 2, cr_dpPa = Fin 0, cr_u = Fin 0\<rparr>]"
proof -
  note e [simp] = assms [unfolded exact_at_def sqrt_exact_at_def, simplified]
  show u: "usableStation fp st_zero"
    by (simp add: usableStation_def st_zero_def demo_defs parse_examples)
  have p: "parseRows fp st_zero =
           [\<lparr>pr_rmm = Fin 0, pr_dpIn = Fin 0\<rparr>, \<lparr>pr_rmm = Fin 1000, pr_dpIn = Fin 4\<rparr>,
            \<lparr>pr_rmm = Fin 2000, pr_dpIn = Fin 0\<rparr>]"
    by (simp add: parseRows_def st_zero_def demo_defs parse_examples)
  show "cs_rows (the (computeStation fp (Fin 2) D False st_zero)) =
           [\<lparr>cr_r = Fin 0, cr_dpPa = Fin 0, cr_u = Fin 0\<rparr>,
            \<lparr>cr_r = Fin 1, cr_dpPa = Fin 4, cr_u = Fin 2\<rparr>,
            \<lparr>cr_r = Fin 2, cr_dpPa = Fin 0, cr_u = Fin 0\<rparr>]"
    by (simp add: rows_single [OF u] p eval_rows)
qed

text \<open>A station of the examples as the single result of a run with the example settings.\<close>

lemma single_result:
  assumes "usableStation exact_fp st"
  obtains cs where "results (computeAll exact_fp [st] g_demo) = [cs]"
    and "cs \<in> set (results (computeAll exact_fp [st] g_demo))"
    and "computeStation exact_fp (Fin 2) (usedD exact_fp g_demo) False st = Some cs"
    and "cs = the (computeStation exact_fp (Fin 2) (usedD exact_fp g_demo) False st)"
proof -
  have rho: "usedRho exact_fp g_demo = Fin 2" by (simp add: settings_examples exact_at_exact_fp)
  from computeStation_Some [OF assms] obtain cs
    where cs: "computeStation exact_fp (Fin 2) (usedD exact_fp g_demo) False st = Some cs"
    by blast
  then have e: "cs = the (computeStation exact_fp (Fin 2) (usedD exact_fp g_demo) False st)"
    by simp
  have r: "results (computeAll exact_fp [st] g_demo) = [cs]"
    by (simp add: results_single [OF assms] rho settings_examples e)
  then have m: "cs \<in> set (results (computeAll exact_fp [st] g_demo))" by simp
  show ?thesis by (rule that [OF r m cs e])
qed

text \<open>
  C2.  For every processed station the rows, in their sorted order, start with two rows
  (r1, u1) and (r2, u2), and the centerline velocity is u1 when r1 equals 0; otherwise it is
  the linear interpolation u1 + (u2 - u1) (0 - r1) / (r2 - r1) when the absolute value of
  r1 r1 - r2 r2 is below 1e-12, and u1 - a (r1 r1) with a = (u1 - u2) / (r1 r1 - r2 r2)
  otherwise, every operation being the program's floating-point operation (with r2 = r1 the
  linear formula divides by zero and gives an infinity or NaN).  In an arithmetic with the
  properties of binary64 the rows are ascending by radius, so r1 is the smallest radius.
\<close>

theorem centerline_estimate:
  assumes "cs \<in> set (results (computeAll fp sts g))"
  shows "\<exists>a b rest. cs_rows cs = a # b # rest
           \<and> cs_Uc cs = centerline_spec fp (cr_r a) (cr_u a) (cr_r b) (cr_u b)
           \<and> (sound_fp fp \<longrightarrow> ascendingByRadius (cs_rows cs)
                               \<and> (\<forall>row\<in>set (cs_rows cs). jle (cr_r a) (cr_r row)))"
proof -
  from in_results [OF assms] obtain st
    where st: "computeStation fp (usedRho fp g) (usedD fp g) (gs_pUnits g = Kpa) st = Some cs"
    by blast
  from rows_two [OF st] obtain a b rest where rows: "cs_rows cs = a # b # rest" by blast
  have uc: "cs_Uc cs = centerline_spec fp (cr_r a) (cr_u a) (cr_r b) (cr_u b)"
    using computeStation_fields(1) [OF st]
    by (simp add: radii_def velocities_def rows centerline_two)
  have srt: "sound_fp fp \<longrightarrow> ascendingByRadius (cs_rows cs)
                               \<and> (\<forall>row\<in>set (cs_rows cs). jle (cr_r a) (cr_r row))"
    using rows_ascending [OF _ st] rows_first_smallest [OF _ st rows] by blast
  from rows uc srt show ?thesis by blast
qed

theorem centerline_estimate_witness:
  "sound_fp exact_fp
   \<and> (\<exists>cs. results (computeAll exact_fp [st_demo] g_demo) = [cs]
          \<and> map (\<lambda>row. (cr_r row, cr_u row)) (cs_rows cs)
              = [(Fin 0, Fin 2), (Fin 1, Fin 1), (Fin 2, Fin 0)]
          \<and> cs_Uc cs = Fin 2 \<and> ascendingByRadius (cs_rows cs))
   \<and> (\<exists>cs. results (computeAll exact_fp [st_quad] g_demo) = [cs]
          \<and> map (\<lambda>row. (cr_r row, cr_u row)) (cs_rows cs) = [(Fin 1, Fin 4), (Fin 2, Fin 1)]
          \<and> cs_Uc cs = quadratic_at_zero exact_fp (Fin 1) (Fin 4) (Fin 2) (Fin 1)
          \<and> cs_Uc cs = Fin 5)
   \<and> (\<exists>cs. results (computeAll exact_fp [st_dup] g_demo) = [cs]
          \<and> map (\<lambda>row. (cr_r row, cr_u row)) (cs_rows cs) = [(Fin 1, Fin 4), (Fin 1, Fin 1)]
          \<and> cs_Uc cs = linear_at_zero exact_fp (Fin 1) (Fin 4) (Fin 1) (Fin 1)
          \<and> cs_Uc cs = PInf)"
proof -
  note rd = rows_demo [OF exact_at_exact_fp sqrt_exact_at_exact_fp, simplified]
  note rq = rows_quad [OF exact_at_exact_fp sqrt_exact_at_exact_fp, simplified]
  note rp = rows_dup [OF exact_at_exact_fp sqrt_exact_at_exact_fp, simplified]
  have 1: "\<exists>cs. results (computeAll exact_fp [st_demo] g_demo) = [cs]
          \<and> map (\<lambda>row. (cr_r row, cr_u row)) (cs_rows cs)
              = [(Fin 0, Fin 2), (Fin 1, Fin 1), (Fin 2, Fin 0)]
          \<and> cs_Uc cs = Fin 2 \<and> ascendingByRadius (cs_rows cs)"
  proof -
    from single_result [OF rd(1)] obtain cs
      where cs: "results (computeAll exact_fp [st_demo] g_demo) = [cs]"
        "cs \<in> set (results (computeAll exact_fp [st_demo] g_demo))"
        "cs = the (computeStation exact_fp (Fin 2) (usedD exact_fp g_demo) False st_demo)"
      by blast
    have rows: "cs_rows cs = [\<lparr>cr_r = Fin 0, cr_dpPa = Fin 4, cr_u = Fin 2\<rparr>,
            \<lparr>cr_r = Fin 1, cr_dpPa = Fin 1, cr_u = Fin 1\<rparr>,
            \<lparr>cr_r = Fin 2, cr_dpPa = Fin 0, cr_u = Fin 0\<rparr>]"
      unfolding cs(3) by (rule rd(2))
    from centerline_estimate [OF cs(2)] sound_exact_fp
    have "cs_Uc cs = Fin 2 \<and> ascendingByRadius (cs_rows cs)"
      by (auto simp: rows centerline_spec_def jeq_def)
    with cs(1) rows show ?thesis by (intro exI [of _ cs]) simp
  qed
  have 2: "\<exists>cs. results (computeAll exact_fp [st_quad] g_demo) = [cs]
          \<and> map (\<lambda>row. (cr_r row, cr_u row)) (cs_rows cs) = [(Fin 1, Fin 4), (Fin 2, Fin 1)]
          \<and> cs_Uc cs = quadratic_at_zero exact_fp (Fin 1) (Fin 4) (Fin 2) (Fin 1)
          \<and> cs_Uc cs = Fin 5"
  proof -
    from single_result [OF rq(1)] obtain cs
      where cs: "results (computeAll exact_fp [st_quad] g_demo) = [cs]"
        "cs \<in> set (results (computeAll exact_fp [st_quad] g_demo))"
        "cs = the (computeStation exact_fp (Fin 2) (usedD exact_fp g_demo) False st_quad)"
      by blast
    have rows: "cs_rows cs = [\<lparr>cr_r = Fin 1, cr_dpPa = Fin 16, cr_u = Fin 4\<rparr>,
            \<lparr>cr_r = Fin 2, cr_dpPa = Fin 1, cr_u = Fin 1\<rparr>]"
      unfolding cs(3) by (rule rq(2))
    have b: "centerline_spec exact_fp (Fin 1) (Fin 4) (Fin 2) (Fin 1)
             = quadratic_at_zero exact_fp (Fin 1) (Fin 4) (Fin 2) (Fin 1)"
      by (simp add: centerline_spec_def jeq_def jsub_def lit_1em12_def)
    have v: "quadratic_at_zero exact_fp (Fin 1) (Fin 4) (Fin 2) (Fin 1) = Fin 5"
      by (simp add: quadratic_at_zero_def Let_def jsub_def)
    from centerline_estimate [OF cs(2)]
    have "cs_Uc cs = quadratic_at_zero exact_fp (Fin 1) (Fin 4) (Fin 2) (Fin 1)"
      by (auto simp: rows b)
    with cs(1) rows v show ?thesis by (intro exI [of _ cs]) simp
  qed
  have 3: "\<exists>cs. results (computeAll exact_fp [st_dup] g_demo) = [cs]
          \<and> map (\<lambda>row. (cr_r row, cr_u row)) (cs_rows cs) = [(Fin 1, Fin 4), (Fin 1, Fin 1)]
          \<and> cs_Uc cs = linear_at_zero exact_fp (Fin 1) (Fin 4) (Fin 1) (Fin 1)
          \<and> cs_Uc cs = PInf"
  proof -
    from single_result [OF rp(1)] obtain cs
      where cs: "results (computeAll exact_fp [st_dup] g_demo) = [cs]"
        "cs \<in> set (results (computeAll exact_fp [st_dup] g_demo))"
        "cs = the (computeStation exact_fp (Fin 2) (usedD exact_fp g_demo) False st_dup)"
      by blast
    have rows: "cs_rows cs = [\<lparr>cr_r = Fin 1, cr_dpPa = Fin 16, cr_u = Fin 4\<rparr>,
            \<lparr>cr_r = Fin 1, cr_dpPa = Fin 1, cr_u = Fin 1\<rparr>]"
      unfolding cs(3) by (rule rp(2))
    have b: "centerline_spec exact_fp (Fin 1) (Fin 4) (Fin 1) (Fin 1)
             = linear_at_zero exact_fp (Fin 1) (Fin 4) (Fin 1) (Fin 1)"
      by (simp add: centerline_spec_def jeq_def jsub_def lit_1em12_def)
    have v: "linear_at_zero exact_fp (Fin 1) (Fin 4) (Fin 1) (Fin 1) = PInf"
      by (simp add: linear_at_zero_def jsub_def)
    from centerline_estimate [OF cs(2)]
    have "cs_Uc cs = linear_at_zero exact_fp (Fin 1) (Fin 4) (Fin 1) (Fin 1)"
      by (auto simp: rows b)
    with cs(1) rows v show ?thesis by (intro exI [of _ cs]) simp
  qed
  from sound_exact_fp 1 2 3 show ?thesis by (intro conjI)
qed


section \<open>Half-velocity radius\<close>

lemma upt_step: "i < n \<Longrightarrow> [i..<n] = i # [Suc i..<n]"
  by (rule upt_conv_Cons)

text \<open>Each loop returns the interpolation at the first bracketing index, if there is one.\<close>

lemma logScan_find:
  "logScan fp tr target i =
   map_option (\<lambda>j. jsqrt fp (interpolateAt fp (map p_r2 tr) (map p_lnu tr) target j))
     (List.find (bracketAt (map p_lnu tr) target) [i..<length tr - 1])"
proof (induction fp tr target i rule: logScan.induct)
  case (1 fp tr target i)
  show ?case
  proof (cases "i + 1 < length tr")
    case True
    then have up: "[i..<length tr - Suc 0] = i # [Suc i..<length tr - Suc 0]"
      by (intro upt_step) simp
    show ?thesis
    proof (cases "bracketAt (map p_lnu tr) target i")
      case b: True
      then have "jge (p_lnu (tr ! i)) target \<and> jle (p_lnu (tr ! (i + 1))) target"
        using True by (simp add: bracketAt_def)
      then have "logScan fp tr target i
                 = Some (jsqrt fp (interpolateAt fp (map p_r2 tr) (map p_lnu tr) target i))"
        using True by (subst logScan.simps) (simp add: Let_def interpolateAt_def)
      then show ?thesis using b by (simp add: up)
    next
      case b: False
      then have n: "\<not> (jge (p_lnu (tr ! i)) target \<and> jle (p_lnu (tr ! (i + 1))) target)"
        using True by (simp add: bracketAt_def)
      have "logScan fp tr target i = logScan fp tr target (i + 1)"
        using True n by (subst logScan.simps) (auto simp: Let_def)
      also have "\<dots> = map_option (\<lambda>j. jsqrt fp (interpolateAt fp (map p_r2 tr) (map p_lnu tr) target j))
                    (List.find (bracketAt (map p_lnu tr) target) [i + 1..<length tr - 1])"
        using 1 [OF True refl refl n] .
      finally show ?thesis using b by (simp add: up)
    qed
  next
    case False
    then have "logScan fp tr target i = None" by (subst logScan.simps) simp
    moreover from False have "[i..<length tr - Suc 0] = []" by simp
    ultimately show ?thesis by (simp only: One_nat_def find.simps option.map)
  qed
qed

lemma linScan_find:
  assumes "length r = length u"
  shows "linScan fp r u target i =
         map_option (interpolateAt fp r u target) (List.find (bracketAt u target) [i..<length u - 1])"
  using assms
proof (induction fp r u target i rule: linScan.induct)
  case (1 fp r u target i)
  show ?case
  proof (cases "i + 1 < length u")
    case True
    then have up: "[i..<length u - Suc 0] = i # [Suc i..<length u - Suc 0]"
      by (intro upt_step) simp
    from True "1.prems" have nth: "jsnth u i = u ! i" "jsnth u (Suc i) = u ! Suc i"
      "jsnth r i = r ! i" "jsnth r (Suc i) = r ! Suc i"
      by (simp_all add: jsnth_def)
    show ?thesis
    proof (cases "bracketAt u target i")
      case b: True
      then have "jge (jsnth u i) target \<and> jle (jsnth u (i + 1)) target"
        by (simp add: bracketAt_def nth)
      then have "linScan fp r u target i = Some (interpolateAt fp r u target i)"
        using True by (subst linScan.simps) (simp add: Let_def interpolateAt_def nth)
      then show ?thesis using b by (simp add: up)
    next
      case b: False
      then have n: "\<not> (jge (jsnth u i) target \<and> jle (jsnth u (i + 1)) target)"
        by (simp add: bracketAt_def nth)
      have "linScan fp r u target i = linScan fp r u target (i + 1)"
        using True n by (subst linScan.simps) (auto simp: Let_def)
      also have "\<dots> = map_option (interpolateAt fp r u target)
                    (List.find (bracketAt u target) [i + 1..<length u - 1])"
        using 1 True n by simp
      finally show ?thesis using b by (simp add: up)
    qed
  next
    case False
    then have "linScan fp r u target i = None" by (subst linScan.simps) simp
    moreover from False have "[i..<length u - Suc 0] = []" by simp
    ultimately show ?thesis by (simp only: One_nat_def find.simps option.map)
  qed
qed

lemma map_index_zip:
  assumes "length r = length u"
  shows "map (\<lambda>i. F (r ! i) (u ! i)) [0..<length r] = map (\<lambda>(a, b). F a b) (zip r u)"
  using assms by (intro nth_equalityI) simp_all

text \<open>The array \<open>transformed\<close> holds the rows whose logarithm of the velocity is finite.\<close>

lemma transformed_logPoints:
  assumes "length r = length u"
  shows "transformed fp r u = logPoints fp r u"
proof -
  let ?F = "\<lambda>a b. \<lparr>p_r2 = jmul fp a a, p_lnu = lnVelocity fp b\<rparr>"
  have "map (\<lambda>i. ?F (r ! i) (jsnth u i)) [0..<length r] = map (\<lambda>i. ?F (r ! i) (u ! i)) [0..<length r]"
    using assms(1) by (intro map_cong refl) (simp add: jsnth_def)
  also have "\<dots> = map (\<lambda>(a, b). ?F a b) (zip r u)"
    by (rule map_index_zip [OF assms(1)])
  finally have t: "transformed fp r u
                   = filter (\<lambda>p. isFinite (p_lnu p)) (map (\<lambda>(a, b). ?F a b) (zip r u))"
    by (simp add: transformed_def lnVelocity_def)
  have "filter (\<lambda>p. isFinite (p_lnu p)) (map (\<lambda>(a, b). ?F a b) (zip r u))
        = map (\<lambda>(a, b). ?F a b) (filter ((\<lambda>p. isFinite (p_lnu p)) \<circ> (\<lambda>(a, b). ?F a b)) (zip r u))"
    by (simp only: filter_map)
  also have "(\<lambda>p. isFinite (p_lnu p)) \<circ> (\<lambda>(a, b). ?F a b) = (\<lambda>(a, b). isFinite (lnVelocity fp b))"
    by (auto simp: fun_eq_iff)
  finally show ?thesis using t by (simp add: logPoints_def)
qed

lemma interpolateRhalf_spec:
  assumes "length r = length u" "\<not> jle Uc (Fin 0)"
  shows "interpolateRhalf fp r u Uc = halfRadius_spec fp r u Uc"
  using assms(2)
  by (simp add: interpolateRhalf_def halfRadius_spec_def Let_def firstBracket_def
        transformed_logPoints [OF assms(1)] logScan_find linScan_find [OF assms(1)]
        split: option.splits)

lemma station_lengths:
  "length (radii cs) = length (velocities cs)" "length (radii cs) = length (cs_rows cs)"
  by (simp_all add: radii_def velocities_def)

lemma station_rHalf:
  assumes "computeStation fp rho D k st = Some cs"
  shows "cs_rHalf cs = finiteOrNaN (interpolateRhalf fp (radii cs) (velocities cs) (cs_Uc cs))"
  using computeStation_fields(2) [OF assms] by (simp add: finiteOrNaN_def)

text \<open>The warning that no crossing was found is in the trace exactly when the solver's result is not finite.\<close>

lemma checkRows_NoCrossing:
  "NoCrossing \<notin> set (warnings T) \<Longrightarrow> NoCrossing \<notin> set (warnings (checkRows rows i T))"
proof (induction rows i T rule: checkRows.induct)
  case (1 rows i T)
  show ?case
  proof (cases "i < length rows")
    case True
    then show ?thesis
      using 1 by (subst checkRows.simps) (auto simp: Let_def pushWarn_def)
  next
    case False
    then show ?thesis using 1(2) by (subst checkRows.simps) simp
  qed
qed

lemma station_NoCrossing:
  assumes "computeStation fp rho D k st = Some cs"
  shows "(NoCrossing \<in> set (warnings (cs_trace cs)))
         = (\<not> isFinite (interpolateRhalf fp (radii cs) (velocities cs) (cs_Uc cs)))"
proof -
  have "NoCrossing \<notin> set (warnings (snd (centerline fp (radii cs) (velocities cs) T)))"
    if "NoCrossing \<notin> set (warnings T)" for T
    using that by (simp add: centerline_def Let_def pushWarn_def)
  moreover have "NoCrossing \<notin> set (warnings (checkRows (cs_rows cs) 1 mkTrace))"
    by (rule checkRows_NoCrossing) (simp add: mkTrace_def)
  ultimately have "NoCrossing \<notin> set (warnings (snd (centerline fp (radii cs) (velocities cs)
                      (checkRows (cs_rows cs) 1 mkTrace))))"
    by simp
  then show ?thesis using computeStation_fields(7) [OF assms] by auto
qed

lemma finiteOrNaN_NaN: "(finiteOrNaN x = NaN) = (\<not> isFinite x)"
  by (cases x) (simp_all add: finiteOrNaN_def)

lemma upt_2: "[0..<2] = [0, 1]" "[0..<Suc (Suc 0)] = [0, Suc 0]"
  by (simp_all add: upt_rec)

lemma Uc_zero_rows:
  assumes "computeStation fp rho D k st = Some cs" "cs_rows cs = a # rest" "cr_r a = Fin 0"
  shows "cs_Uc cs = cr_u a"
  using computeStation_fields(1) [OF assms(1)]
  by (simp add: radii_def velocities_def assms(2,3) centerline_def jeq_def)

text \<open>
  The station with velocities 0, 2, 0 at the radii 0, 1, 2 m: the specification's procedure
  finds the crossing at 2 m, the program returns NaN.  This holds for every arithmetic that
  is exact on the numbers that occur.
\<close>

lemma half_radius_guard:
  assumes "exact_at fp [0, 1, 2, 4, 8, 1000, 2000, - 1, - 2]" "sqrt_exact_at fp [2]"
    and "computeStation fp (Fin 2) D False st_zero = Some cs"
  shows "radii cs = [Fin 0, Fin 1, Fin 2]" "velocities cs = [Fin 0, Fin 2, Fin 0]"
    "cs_Uc cs = Fin 0"
    "firstBracket (velocities cs) (jdiv fp (cs_Uc cs) (Fin 2)) = Some 1"
    "halfRadius_spec fp (radii cs) (velocities cs) (cs_Uc cs) = Fin 2"
    "cs_rHalf cs = NaN"
proof -
  note e = assms(1,2) [unfolded exact_at_def sqrt_exact_at_def, simplified]
  have ex: "exact_at fp [0, 1, 2, 4, 8, 1000, 2000, - 1]" using assms(1) by (simp add: exact_at_def)
  have rows: "cs_rows cs =
           [\<lparr>cr_r = Fin 0, cr_dpPa = Fin 0, cr_u = Fin 0\<rparr>,
            \<lparr>cr_r = Fin 1, cr_dpPa = Fin 4, cr_u = Fin 2\<rparr>,
            \<lparr>cr_r = Fin 2, cr_dpPa = Fin 0, cr_u = Fin 0\<rparr>]"
    using rows_zero(2) [OF ex assms(2), of D] assms(3) by simp
  show l: "radii cs = [Fin 0, Fin 1, Fin 2]" "velocities cs = [Fin 0, Fin 2, Fin 0]"
    by (simp_all add: radii_def velocities_def rows)
  show uc: "cs_Uc cs = Fin 0"
    using Uc_zero_rows [OF assms(3) rows] by simp
  show "firstBracket (velocities cs) (jdiv fp (cs_Uc cs) (Fin 2)) = Some 1"
    by (simp add: l uc e firstBracket_def bracketAt_def jge_def upt_2)
  have lp: "length (logPoints fp (radii cs) (velocities cs)) \<le> 1"
    by (simp add: l logPoints_def lnVelocity_def jgt_def)
  then have "[0..<length (logPoints fp (radii cs) (velocities cs)) - 1] = []" by simp
  then have nb: "firstBracket (map p_lnu (logPoints fp (radii cs) (velocities cs))) t = None" for t
    by (simp add: firstBracket_def)
  have "halfRadius_spec fp (radii cs) (velocities cs) (cs_Uc cs)
        = (case firstBracket (velocities cs) (jdiv fp (cs_Uc cs) (Fin 2)) of
             Some i \<Rightarrow> interpolateAt fp (radii cs) (velocities cs) (jdiv fp (cs_Uc cs) (Fin 2)) i
           | None \<Rightarrow> NaN)"
    by (simp add: halfRadius_spec_def Let_def nb)
  also have "\<dots> = Fin 2"
    by (simp add: l uc e firstBracket_def bracketAt_def jge_def upt_2 interpolateAt_def jsub_def)
  finally show "halfRadius_spec fp (radii cs) (velocities cs) (cs_Uc cs) = Fin 2" .
  show "cs_rHalf cs = NaN"
    by (simp add: station_rHalf [OF assms(3)] uc interpolateRhalf_def finiteOrNaN_def)
qed

text \<open>
  C3 as stated fails when the centerline velocity is not positive, because the solver then
  returns NaN before any scan.  For the rows (0 mm, 0 Pa), (1000 mm, 4 Pa), (2000 mm, 0 Pa)
  with density 2 the velocities are 0, 2, 0 and Uc = 0; the pair of rows 1 and 2 brackets
  Uc/2 = 0 and linear interpolation in r gives 2 m, yet the computed half radius is NaN.
  Every number that occurs is a double, so binary64 computes these values.
\<close>

theorem half_radius_guard_counterexample:
  "\<exists>cs. results (computeAll exact_fp [st_zero] g_demo) = [cs]
      \<and> radii cs = [Fin 0, Fin 1, Fin 2]
      \<and> velocities cs = [Fin 0, Fin 2, Fin 0]
      \<and> cs_Uc cs = Fin 0
      \<and> firstBracket (velocities cs) (jdiv exact_fp (cs_Uc cs) (Fin 2)) = Some 1
      \<and> halfRadius_spec exact_fp (radii cs) (velocities cs) (cs_Uc cs) = Fin 2
      \<and> cs_rHalf cs = NaN"
proof -
  from single_result [OF rows_zero(1) [OF exact_at_exact_fp sqrt_exact_examples(2)]] obtain cs
    where cs: "results (computeAll exact_fp [st_zero] g_demo) = [cs]"
      "computeStation exact_fp (Fin 2) (usedD exact_fp g_demo) False st_zero = Some cs"
    by blast
  from half_radius_guard [OF exact_at_exact_fp sqrt_exact_examples(2) cs(2)] cs(1)
  show ?thesis by (intro exI [of _ cs]) simp
qed

text \<open>
  C3, amended.  For every processed station whose centerline velocity passes the solver's
  guard (Uc is not at or below 0), the half-velocity radius is what the two scans give:
  the first consecutive pair of the rows whose ln u is finite (u positive and finite), as
  (r squared, ln u), with ln u_i >= ln (Uc/2) and ln u_(i+1) <= ln (Uc/2), interpolated
  linearly in r squared and square-rooted; without such a pair the first consecutive pair
  of (r, u) with the same bracketing rule, interpolated linearly in r; and NaN without
  either; a result that is not finite is recorded as NaN.  When Uc is at or below 0 the
  half radius is NaN.  For every processed station, if neither scan has a bracketing pair
  the half radius is NaN, and the half radius is NaN exactly when the warning that no
  crossing was found is in the trace.
\<close>

theorem half_radius_solver:
  assumes "cs \<in> set (results (computeAll fp sts g))"
  shows "(\<not> jle (cs_Uc cs) (Fin 0) \<longrightarrow>
            cs_rHalf cs = finiteOrNaN (halfRadius_spec fp (radii cs) (velocities cs) (cs_Uc cs)))
       \<and> (jle (cs_Uc cs) (Fin 0) \<longrightarrow> cs_rHalf cs = NaN)
       \<and> (firstBracket (map p_lnu (logPoints fp (radii cs) (velocities cs)))
                       (jlog fp (jdiv fp (cs_Uc cs) (Fin 2))) = None
          \<and> firstBracket (velocities cs) (jdiv fp (cs_Uc cs) (Fin 2)) = None
          \<longrightarrow> cs_rHalf cs = NaN \<and> NoCrossing \<in> set (warnings (cs_trace cs)))
       \<and> (cs_rHalf cs = NaN) = (NoCrossing \<in> set (warnings (cs_trace cs)))"
proof -
  from in_results [OF assms] obtain st
    where st: "computeStation fp (usedRho fp g) (usedD fp g) (gs_pUnits g = Kpa) st = Some cs"
    by blast
  note rh = station_rHalf [OF st]
  have 1: "\<not> jle (cs_Uc cs) (Fin 0) \<longrightarrow>
            cs_rHalf cs = finiteOrNaN (halfRadius_spec fp (radii cs) (velocities cs) (cs_Uc cs))"
    using interpolateRhalf_spec [OF station_lengths(1)] rh by simp
  have g: "jle (cs_Uc cs) (Fin 0) \<longrightarrow> cs_rHalf cs = NaN"
    by (simp add: rh interpolateRhalf_def finiteOrNaN_def)
  have 3: "(cs_rHalf cs = NaN) = (NoCrossing \<in> set (warnings (cs_trace cs)))"
    unfolding station_NoCrossing [OF st] rh by (rule finiteOrNaN_NaN)
  have 2: "firstBracket (map p_lnu (logPoints fp (radii cs) (velocities cs)))
                       (jlog fp (jdiv fp (cs_Uc cs) (Fin 2))) = None
          \<and> firstBracket (velocities cs) (jdiv fp (cs_Uc cs) (Fin 2)) = None
          \<longrightarrow> cs_rHalf cs = NaN \<and> NoCrossing \<in> set (warnings (cs_trace cs))"
  proof
    assume n: "firstBracket (map p_lnu (logPoints fp (radii cs) (velocities cs)))
                       (jlog fp (jdiv fp (cs_Uc cs) (Fin 2))) = None
          \<and> firstBracket (velocities cs) (jdiv fp (cs_Uc cs) (Fin 2)) = None"
    have "cs_rHalf cs = NaN"
    proof (cases "jle (cs_Uc cs) (Fin 0)")
      case True
      then show ?thesis using g by simp
    next
      case False
      with 1 n show ?thesis by (simp add: halfRadius_spec_def Let_def finiteOrNaN_def)
    qed
    with 3 show "cs_rHalf cs = NaN \<and> NoCrossing \<in> set (warnings (cs_trace cs))" by simp
  qed
  from 1 g 2 3 show ?thesis by blast
qed

lemma Uc_demo:
  assumes "computeStation exact_fp (Fin 2) D False st_demo = Some cs"
  shows "radii cs = [Fin 0, Fin 1, Fin 2]" "velocities cs = [Fin 2, Fin 1, Fin 0]" "cs_Uc cs = Fin 2"
proof -
  have rows: "cs_rows cs =
           [\<lparr>cr_r = Fin 0, cr_dpPa = Fin 4, cr_u = Fin 2\<rparr>,
            \<lparr>cr_r = Fin 1, cr_dpPa = Fin 1, cr_u = Fin 1\<rparr>,
            \<lparr>cr_r = Fin 2, cr_dpPa = Fin 0, cr_u = Fin 0\<rparr>]"
    using rows_demo(2) [OF exact_at_exact_fp sqrt_exact_at_exact_fp, of D] assms by simp
  show "radii cs = [Fin 0, Fin 1, Fin 2]" "velocities cs = [Fin 2, Fin 1, Fin 0]"
    by (simp_all add: radii_def velocities_def rows)
  show "cs_Uc cs = Fin 2" using Uc_zero_rows [OF assms rows] by simp
qed

lemma spec_demo:
  "halfRadius_spec exact_fp [Fin 0, Fin 1, Fin 2] [Fin 2, Fin 1, Fin 0] (Fin 2) = Fin 1"
proof -
  have lp: "logPoints exact_fp [Fin 0, Fin 1, Fin 2] [Fin 2, Fin 1, Fin 0]
            = [\<lparr>p_r2 = Fin 0, p_lnu = Fin (ln 2)\<rparr>, \<lparr>p_r2 = Fin 1, p_lnu = Fin 0\<rparr>]"
    by (simp add: logPoints_def lnVelocity_def jgt_def)
  have fb: "firstBracket [Fin (ln 2), Fin 0] (Fin 0) = Some 0"
    by (simp add: firstBracket_def bracketAt_def jge_def)
  have ia: "interpolateAt exact_fp [Fin 0, Fin 1] [Fin (ln 2), Fin 0] (Fin 0) 0 = Fin 1"
    by (simp add: interpolateAt_def jsub_def)
  show ?thesis by (simp add: halfRadius_spec_def Let_def lp fb ia)
qed

theorem half_radius_solver_witness:
  "\<exists>cs. cs \<in> set (results (computeAll exact_fp [st_demo] g_demo))
      \<and> \<not> jle (cs_Uc cs) (Fin 0)
      \<and> halfRadius_spec exact_fp (radii cs) (velocities cs) (cs_Uc cs) = Fin 1
      \<and> cs_rHalf cs = Fin 1
      \<and> cs_rHalf cs \<noteq> NaN
      \<and> NoCrossing \<notin> set (warnings (cs_trace cs))"
proof -
  from single_result [OF rows_demo(1) [OF exact_at_exact_fp sqrt_exact_examples(3)]] obtain cs
    where cs: "cs \<in> set (results (computeAll exact_fp [st_demo] g_demo))"
      and st: "computeStation exact_fp (Fin 2) (usedD exact_fp g_demo) False st_demo = Some cs"
    by blast
  note l = Uc_demo [OF st]
  have n: "\<not> jle (cs_Uc cs) (Fin 0)" by (simp add: l)
  have sp: "halfRadius_spec exact_fp (radii cs) (velocities cs) (cs_Uc cs) = Fin 1"
    by (simp only: l spec_demo)
  note h = half_radius_solver [OF cs]
  from h n sp have rh: "cs_rHalf cs = Fin 1" by (simp add: finiteOrNaN_def)
  from h have w: "(cs_rHalf cs = NaN) = (NoCrossing \<in> set (warnings (cs_trace cs)))" by blast
  from w rh have "NoCrossing \<notin> set (warnings (cs_trace cs))" by simp
  with cs n sp rh show ?thesis by (intro exI [of _ cs]) simp
qed


section \<open>Mass and momentum flux\<close>

lemma integrand_f_spec:
  assumes "length r = length u"
  shows "integrand_f fp rho r u = mass_integrand fp rho r u"
proof -
  have "integrand_f fp rho r u = map (\<lambda>i. jmul fp (jmul fp rho (u ! i)) (r ! i)) [0..<length r]"
    using assms unfolding integrand_f_def by (intro map_cong refl) (simp add: jsnth_def)
  also have "\<dots> = map (\<lambda>(a, b). jmul fp (jmul fp rho b) a) (zip r u)"
    by (rule map_index_zip [OF assms])
  finally show ?thesis by (simp add: mass_integrand_def)
qed

lemma integrand_g_spec:
  assumes "length r = length u"
  shows "integrand_g fp rho r u = momentum_integrand fp rho r u"
proof -
  have "integrand_g fp rho r u
        = map (\<lambda>i. jmul fp (jmul fp (jmul fp rho (u ! i)) (u ! i)) (r ! i)) [0..<length r]"
    using assms unfolding integrand_g_def by (intro map_cong refl) (simp add: jsnth_def)
  also have "\<dots> = map (\<lambda>(a, b). jmul fp (jmul fp (jmul fp rho b) b) a) (zip r u)"
    by (rule map_index_zip [OF assms])
  finally show ?thesis by (simp add: momentum_integrand_def)
qed

text \<open>The trapezoid loop adds up the segments from the innermost outwards.\<close>

lemma trapzLoop_fold:
  assumes "length f = length r" "length g = length r"
  shows "trapzLoop fp r f g i af ag =
         (foldl (jadd fp) af (map (segmentArea fp f r) [i..<length r - 1]),
          foldl (jadd fp) ag (map (segmentArea fp g r) [i..<length r - 1]))"
  using assms
proof (induction fp r f g i af ag rule: trapzLoop.induct)
  case (1 fp r f g i af ag)
  show ?case
  proof (cases "i + 1 < length r")
    case True
    then have up: "[i..<length r - Suc 0] = i # [Suc i..<length r - Suc 0]"
      by (intro upt_step) simp
    from True "1.prems" have nth: "jsnth r i = r ! i" "jsnth r (Suc i) = r ! Suc i"
      "jsnth f i = f ! i" "jsnth f (Suc i) = f ! Suc i"
      "jsnth g i = g ! i" "jsnth g (Suc i) = g ! Suc i"
      by (simp_all add: jsnth_def)
    note ih = "1.IH" [OF True refl refl refl "1.prems"]
    have sf: "jmul fp (jmul fp (Fin (1 / 2)) (jadd fp (jsnth f i) (jsnth f (i + 1))))
                   (jsub fp (jsnth r (i + 1)) (jsnth r i)) = segmentArea fp f r i"
      and sg: "jmul fp (jmul fp (Fin (1 / 2)) (jadd fp (jsnth g i) (jsnth g (i + 1))))
                   (jsub fp (jsnth r (i + 1)) (jsnth r i)) = segmentArea fp g r i"
      by (simp_all add: segmentArea_def nth)
    have "trapzLoop fp r f g i af ag
          = trapzLoop fp r f g (i + 1) (jadd fp af (segmentArea fp f r i))
              (jadd fp ag (segmentArea fp g r i))"
      by (subst trapzLoop.simps) (simp only: True if_True Let_def sf sg)
    also have "\<dots> = (foldl (jadd fp) (jadd fp af (segmentArea fp f r i))
                        (map (segmentArea fp f r) [i + 1..<length r - 1]),
                     foldl (jadd fp) (jadd fp ag (segmentArea fp g r i))
                        (map (segmentArea fp g r) [i + 1..<length r - 1]))"
      using ih by (simp only: sf sg)
    finally have "trapzLoop fp r f g i af ag
          = (foldl (jadd fp) (jadd fp af (segmentArea fp f r i))
               (map (segmentArea fp f r) [i + 1..<length r - 1]),
             foldl (jadd fp) (jadd fp ag (segmentArea fp g r i))
               (map (segmentArea fp g r) [i + 1..<length r - 1]))" .
    then show ?thesis by (simp add: up)
  next
    case False
    then have "trapzLoop fp r f g i af ag = (af, ag)" by (subst trapzLoop.simps) simp
    moreover from False have "[i..<length r - Suc 0] = []" by simp
    ultimately show ?thesis by (simp only: One_nat_def list.map foldl_Nil)
  qed
qed

lemma trapz_spec:
  assumes "length r = length u"
  shows "mdot_trapz fp rho r u = mdot_spec fp rho r u" and "I_trapz fp rho r u = I_spec fp rho r u"
proof -
  have l: "length (mass_integrand fp rho r u) = length r"
    "length (momentum_integrand fp rho r u) = length r"
    using assms by (simp_all add: mass_integrand_def momentum_integrand_def)
  have "areas fp rho r u =
        (foldl (jadd fp) (Fin 0) (map (segmentArea fp (mass_integrand fp rho r u) r) [0..<length r - 1]),
         foldl (jadd fp) (Fin 0) (map (segmentArea fp (momentum_integrand fp rho r u) r) [0..<length r - 1]))"
    unfolding areas_def integrand_f_spec [OF assms] integrand_g_spec [OF assms]
    by (rule trapzLoop_fold [OF l])
  then show "mdot_trapz fp rho r u = mdot_spec fp rho r u" "I_trapz fp rho r u = I_spec fp rho r u"
    by (simp_all add: mdot_trapz_def I_trapz_def mdot_spec_def I_spec_def trapezoid_total_def)
qed

lemma checkRows_TailSkipped:
  "TailSkipped \<notin> set (warnings T) \<Longrightarrow> TailSkipped \<notin> set (warnings (checkRows rows i T))"
proof (induction rows i T rule: checkRows.induct)
  case (1 rows i T)
  show ?case
  proof (cases "i < length rows")
    case True
    then show ?thesis
      using 1 by (subst checkRows.simps) (auto simp: Let_def pushWarn_def)
  next
    case False
    then show ?thesis using 1(2) by (subst checkRows.simps) simp
  qed
qed

lemma station_TailSkipped:
  assumes "computeStation fp rho D k st = Some cs"
  shows "(TailSkipped \<in> set (warnings (cs_trace cs))) = (\<not> tailOK cs)"
proof -
  have "TailSkipped \<notin> set (warnings (snd (centerline fp (radii cs) (velocities cs) T)))"
    if "TailSkipped \<notin> set (warnings T)" for T
    using that by (simp add: centerline_def Let_def pushWarn_def)
  moreover have "TailSkipped \<notin> set (warnings (checkRows (cs_rows cs) 1 mkTrace))"
    by (rule checkRows_TailSkipped) (simp add: mkTrace_def)
  ultimately have "TailSkipped \<notin> set (warnings (snd (centerline fp (radii cs) (velocities cs)
                      (checkRows (cs_rows cs) 1 mkTrace))))"
    by simp
  then show ?thesis using computeStation_fields(7) [OF assms] by auto
qed



text \<open>The totals of the two example stations in exact arithmetic.\<close>

lemma flux_examples:
  "mdot_spec exact_fp (Fin 2) [Fin 0, Fin 1, Fin 2] [Fin 2, Fin 1, Fin 0] = Fin (4 * Math_PI)"
  "I_spec exact_fp (Fin 2) [Fin 0, Fin 1, Fin 2] [Fin 2, Fin 1, Fin 0] = Fin (4 * Math_PI)"
  "mdot_spec exact_fp (Fin 2) [Fin 0, Fin 1, Fin 2] [Fin 0, Fin 2, Fin 0] = Fin (8 * Math_PI)"
  "I_spec exact_fp (Fin 2) [Fin 0, Fin 1, Fin 2] [Fin 0, Fin 2, Fin 0] = Fin (16 * Math_PI)"
  by (simp_all add: mdot_spec_def I_spec_def trapezoid_total_def mass_integrand_def
        momentum_integrand_def segmentArea_def upt_2 jsub_def)

lemma zero_station:
  assumes "computeStation exact_fp (Fin 2) D False st_zero = Some cs"
  shows "radii cs = [Fin 0, Fin 1, Fin 2]" "velocities cs = [Fin 0, Fin 2, Fin 0]"
    "cs_Uc cs = Fin 0" "cs_rHalf cs = NaN"
  using half_radius_guard [OF exact_at_exact_fp sqrt_exact_examples(2) assms] by simp_all

lemma demo_station:
  assumes "computeStation exact_fp (Fin 2) D False st_demo = Some cs"
  shows "radii cs = [Fin 0, Fin 1, Fin 2]" "velocities cs = [Fin 2, Fin 1, Fin 0]"
    "cs_Uc cs = Fin 2" "cs_rHalf cs = Fin 1"
proof -
  note l = Uc_demo [OF assms]
  show "radii cs = [Fin 0, Fin 1, Fin 2]" "velocities cs = [Fin 2, Fin 1, Fin 0]"
    "cs_Uc cs = Fin 2" by (rule l)+
  have "interpolateRhalf exact_fp (radii cs) (velocities cs) (cs_Uc cs) = Fin 1"
    using interpolateRhalf_spec [where fp = exact_fp and Uc = "cs_Uc cs", OF station_lengths(1) [of cs]]
    by (simp add: l spec_demo)
  then show "cs_rHalf cs = Fin 1"
    using station_rHalf [OF assms] by (simp add: finiteOrNaN_def)
qed



section \<open>A centerline velocity that is not positive\<close>

text \<open>
  C10.  For every processed station whose centerline velocity Uc is at or below 0, the
  solver returns NaN whatever the samples are (no scan is consulted), so the half radius is
  NaN with the no-crossing warning in the trace, the collapse sequence is empty, the RMSE is
  NaN, the tail correction is skipped with its warning, and mdot and I are the uncorrected
  trapezoidal totals.
\<close>

theorem nonpositive_centerline:
  assumes "cs \<in> set (results (computeAll fp sts g))" and "jle (cs_Uc cs) (Fin 0)"
  shows "(\<forall>r u. interpolateRhalf fp r u (cs_Uc cs) = NaN)
       \<and> cs_rHalf cs = NaN
       \<and> NoCrossing \<in> set (warnings (cs_trace cs))
       \<and> cs_collapse cs = []
       \<and> cs_rmse cs = NaN
       \<and> cs_mdot cs = mdot_spec fp (usedRho fp g) (radii cs) (velocities cs)
       \<and> cs_I cs = I_spec fp (usedRho fp g) (radii cs) (velocities cs)
       \<and> TailSkipped \<in> set (warnings (cs_trace cs))"
proof -
  from in_results [OF assms(1)] obtain st
    where st: "computeStation fp (usedRho fp g) (usedD fp g) (gs_pUnits g = Kpa) st = Some cs"
    by blast
  have 1: "\<forall>r u. interpolateRhalf fp r u (cs_Uc cs) = NaN"
    using assms(2) by (simp add: interpolateRhalf_def)
  have 2: "cs_rHalf cs = NaN" using computeStation_fields(2) [OF st] 1 by simp
  have 3: "NoCrossing \<in> set (warnings (cs_trace cs))"
    using station_NoCrossing [OF st] 1 by simp
  have nt: "\<not> tailOK cs" using 2 by (simp add: tailOK_def)
  have 4: "cs_collapse cs = []" using computeStation_fields(5) [OF st] 2 by simp
  have 5: "cs_rmse cs = NaN" using computeStation_fields(6) [OF st] 4 by simp
  have 6: "cs_mdot cs = mdot_spec fp (usedRho fp g) (radii cs) (velocities cs)"
    using computeStation_fields(3) [OF st] nt by (simp add: trapz_spec [OF station_lengths(1)])
  have 7: "cs_I cs = I_spec fp (usedRho fp g) (radii cs) (velocities cs)"
    using computeStation_fields(4) [OF st] nt by (simp add: trapz_spec [OF station_lengths(1)])
  have 8: "TailSkipped \<in> set (warnings (cs_trace cs))"
    using station_TailSkipped [OF st] nt by simp
  from 1 2 3 4 5 6 7 8 show ?thesis by (intro conjI)
qed

theorem nonpositive_centerline_witness:
  "\<exists>cs. cs \<in> set (results (computeAll exact_fp [st_zero] g_demo))
      \<and> jle (cs_Uc cs) (Fin 0)
      \<and> velocities cs = [Fin 0, Fin 2, Fin 0]
      \<and> cs_rHalf cs = NaN
      \<and> NoCrossing \<in> set (warnings (cs_trace cs))
      \<and> cs_collapse cs = []
      \<and> cs_rmse cs = NaN
      \<and> TailSkipped \<in> set (warnings (cs_trace cs))
      \<and> cs_mdot cs = Fin (8 * Math_PI) \<and> cs_I cs = Fin (16 * Math_PI)"
proof -
  have rho: "usedRho exact_fp g_demo = Fin 2" by (simp add: settings_examples exact_at_exact_fp)
  from single_result [OF rows_zero(1) [OF exact_at_exact_fp sqrt_exact_examples(2)]] obtain cz
    where cz: "cz \<in> set (results (computeAll exact_fp [st_zero] g_demo))"
      and sz: "computeStation exact_fp (Fin 2) (usedD exact_fp g_demo) False st_zero = Some cz"
    by blast
  note z = zero_station [OF sz]
  have le: "jle (cs_Uc cz) (Fin 0)" by (simp add: z)
  note n = nonpositive_centerline [OF cz le]
  from n have m: "cs_mdot cz = Fin (8 * Math_PI)" and i: "cs_I cz = Fin (16 * Math_PI)"
    by (simp_all only: rho z flux_examples)
  from n cz le m i z(2) show ?thesis by (intro exI [of _ cz]) simp
qed


section \<open>Similarity collapse and RMSE\<close>

lemma sumSqErr_fold:
  "sumSqErr fp pts = foldl (jadd fp) (Fin 0) (map (squaredError fp) pts)"
proof -
  have "foldl (\<lambda>sum p.
              let gaussian_ur = jexp fp (jmul fp (jmul fp (jneg (jlog fp (Fin 2))) (cp_xr p)) (cp_xr p));
                  err = jsub fp (cp_ur p) gaussian_ur
              in jadd fp sum (jmul fp err err)) a pts
        = foldl (jadd fp) a (map (squaredError fp) pts)" for a
    by (induction pts arbitrary: a) (simp_all add: Let_def squaredError_def ideal_profile_def)
  then show ?thesis by (simp add: sumSqErr_def)
qed

lemma collapse_points:
  assumes "length r = length u"
  shows "map (\<lambda>i. \<lparr>cp_xr = jdiv fp (r ! i) h, cp_ur = jdiv fp (jsnth u i) uc\<rparr>) [0..<length r]
         = collapse_spec fp h uc r u"
proof -
  have "map (\<lambda>i. \<lparr>cp_xr = jdiv fp (r ! i) h, cp_ur = jdiv fp (jsnth u i) uc\<rparr>) [0..<length r]
        = map (\<lambda>i. \<lparr>cp_xr = jdiv fp (r ! i) h, cp_ur = jdiv fp (u ! i) uc\<rparr>) [0..<length r]"
    using assms by (intro map_cong refl) (simp add: jsnth_def)
  also have "\<dots> = map (\<lambda>(a, b). \<lparr>cp_xr = jdiv fp a h, cp_ur = jdiv fp b uc\<rparr>) (zip r u)"
    by (rule map_index_zip [OF assms])
  finally show ?thesis by (simp add: collapse_spec_def)
qed

text \<open>
  C5.  For every processed station the half radius is NaN or finite.  If it is finite and
  positive, the collapse sequence has, for each sorted row in order, the point
  (r / half radius, u / Uc), and the RMSE is the square root of the mean over those points
  of (ur - exp (- ln 2 xr xr)) squared, the sum being taken in order from zero and every
  operation being the program's floating-point operation.  If the half radius is NaN or not
  positive, the collapse sequence is empty and the RMSE is NaN.
\<close>

theorem collapse_rmse:
  assumes "cs \<in> set (results (computeAll fp sts g))"
  shows "(cs_rHalf cs = NaN \<or> (\<exists>h. cs_rHalf cs = Fin h))
       \<and> (\<forall>h. cs_rHalf cs = Fin h \<and> 0 < h \<longrightarrow>
             cs_collapse cs = collapse_spec fp (Fin h) (cs_Uc cs) (radii cs) (velocities cs)
           \<and> length (cs_collapse cs) = length (cs_rows cs)
           \<and> map cp_xr (cs_collapse cs) = map (\<lambda>row. jdiv fp (cr_r row) (Fin h)) (cs_rows cs)
           \<and> map cp_ur (cs_collapse cs) = map (\<lambda>row. jdiv fp (cr_u row) (cs_Uc cs)) (cs_rows cs)
           \<and> cs_rmse cs = rmse_spec fp (cs_collapse cs))
       \<and> ((cs_rHalf cs = NaN \<or> (\<exists>h. cs_rHalf cs = Fin h \<and> h \<le> 0)) \<longrightarrow>
             cs_collapse cs = [] \<and> cs_rmse cs = NaN)"
proof -
  from in_results [OF assms] obtain st
    where st: "computeStation fp (usedRho fp g) (usedD fp g) (gs_pUnits g = Kpa) st = Some cs"
    by blast
  have 1: "cs_rHalf cs = NaN \<or> (\<exists>h. cs_rHalf cs = Fin h)"
    using computeStation_fields(2) [OF st] by (auto simp: isFinite_iff)
  have 2: "\<forall>h. cs_rHalf cs = Fin h \<and> 0 < h \<longrightarrow>
             cs_collapse cs = collapse_spec fp (Fin h) (cs_Uc cs) (radii cs) (velocities cs)
           \<and> length (cs_collapse cs) = length (cs_rows cs)
           \<and> map cp_xr (cs_collapse cs) = map (\<lambda>row. jdiv fp (cr_r row) (Fin h)) (cs_rows cs)
           \<and> map cp_ur (cs_collapse cs) = map (\<lambda>row. jdiv fp (cr_u row) (cs_Uc cs)) (cs_rows cs)
           \<and> cs_rmse cs = rmse_spec fp (cs_collapse cs)"
  proof (intro allI impI)
    fix h assume h: "cs_rHalf cs = Fin h \<and> 0 < h"
    have c: "cs_collapse cs = collapse_spec fp (Fin h) (cs_Uc cs) (radii cs) (velocities cs)"
      using computeStation_fields(5) [OF st] h
      by (simp add: jgt_def collapse_points [OF station_lengths(1)])
    have len: "length (cs_collapse cs) = length (cs_rows cs)"
      by (simp add: c collapse_spec_def radii_def velocities_def)
    have xr: "map cp_xr (cs_collapse cs) = map (\<lambda>row. jdiv fp (cr_r row) (Fin h)) (cs_rows cs)"
      by (simp add: c collapse_spec_def radii_def velocities_def zip_map_map zip_same_conv_map
            comp_def case_prod_beta)
    have ur: "map cp_ur (cs_collapse cs) = map (\<lambda>row. jdiv fp (cr_u row) (cs_Uc cs)) (cs_rows cs)"
      by (simp add: c collapse_spec_def radii_def velocities_def zip_map_map zip_same_conv_map
            comp_def case_prod_beta)
    from computeStation_length [OF st] have "2 \<le> length (cs_rows cs)" by (rule conjunct2)
    with len have "0 < length (cs_collapse cs)" by linarith
    then have r: "cs_rmse cs = rmse_spec fp (cs_collapse cs)"
      using computeStation_fields(6) [OF st] by (simp add: rmse_spec_def sumSqErr_fold)
    from c len xr ur r
    show "cs_collapse cs = collapse_spec fp (Fin h) (cs_Uc cs) (radii cs) (velocities cs)
           \<and> length (cs_collapse cs) = length (cs_rows cs)
           \<and> map cp_xr (cs_collapse cs) = map (\<lambda>row. jdiv fp (cr_r row) (Fin h)) (cs_rows cs)
           \<and> map cp_ur (cs_collapse cs) = map (\<lambda>row. jdiv fp (cr_u row) (cs_Uc cs)) (cs_rows cs)
           \<and> cs_rmse cs = rmse_spec fp (cs_collapse cs)"
      by (intro conjI)
  qed
  have 3: "(cs_rHalf cs = NaN \<or> (\<exists>h. cs_rHalf cs = Fin h \<and> h \<le> 0)) \<longrightarrow>
             cs_collapse cs = [] \<and> cs_rmse cs = NaN"
  proof
    assume "cs_rHalf cs = NaN \<or> (\<exists>h. cs_rHalf cs = Fin h \<and> h \<le> 0)"
    then have n: "(isFinite (cs_rHalf cs) \<and> jgt (cs_rHalf cs) (Fin 0)) = False"
      by (auto simp: jgt_def)
    have c: "cs_collapse cs = []"
      using computeStation_fields(5) [OF st] by (simp only: n if_False)
    then have "cs_rmse cs = NaN" using computeStation_fields(6) [OF st] by simp
    with c show "cs_collapse cs = [] \<and> cs_rmse cs = NaN" by simp
  qed
  from 1 2 3 show ?thesis by (intro conjI)
qed

theorem collapse_rmse_witness:
  "(\<exists>cs. cs \<in> set (results (computeAll exact_fp [st_demo] g_demo))
       \<and> cs_rHalf cs = Fin 1 \<and> (0 :: real) < 1 \<and> cs_Uc cs = Fin 2
       \<and> cs_collapse cs = [\<lparr>cp_xr = Fin 0, cp_ur = Fin 1\<rparr>, \<lparr>cp_xr = Fin 1, cp_ur = Fin (1 / 2)\<rparr>,
                            \<lparr>cp_xr = Fin 2, cp_ur = Fin 0\<rparr>]
       \<and> cs_rmse cs = rmse_spec exact_fp
                         [\<lparr>cp_xr = Fin 0, cp_ur = Fin 1\<rparr>, \<lparr>cp_xr = Fin 1, cp_ur = Fin (1 / 2)\<rparr>,
                          \<lparr>cp_xr = Fin 2, cp_ur = Fin 0\<rparr>]
       \<and> squaredError exact_fp \<lparr>cp_xr = Fin 0, cp_ur = Fin 1\<rparr> = Fin 0)
   \<and> (\<exists>cs. cs \<in> set (results (computeAll exact_fp [st_zero] g_demo))
       \<and> cs_rHalf cs = NaN \<and> cs_collapse cs = [] \<and> cs_rmse cs = NaN)"
proof -
  from single_result [OF rows_demo(1) [OF exact_at_exact_fp sqrt_exact_examples(3)]] obtain cs
    where cs: "cs \<in> set (results (computeAll exact_fp [st_demo] g_demo))"
      and st: "computeStation exact_fp (Fin 2) (usedD exact_fp g_demo) False st_demo = Some cs"
    by blast
  note d = demo_station [OF st]
  note c = collapse_rmse [OF cs]
  have h: "cs_rHalf cs = Fin 1 \<and> (0 :: real) < 1" by (simp add: d)
  from c h have co: "cs_collapse cs = collapse_spec exact_fp (Fin 1) (cs_Uc cs) (radii cs) (velocities cs)"
    and rm: "cs_rmse cs = rmse_spec exact_fp (cs_collapse cs)"
    by blast+
  have co': "cs_collapse cs = [\<lparr>cp_xr = Fin 0, cp_ur = Fin 1\<rparr>, \<lparr>cp_xr = Fin 1, cp_ur = Fin (1 / 2)\<rparr>,
                            \<lparr>cp_xr = Fin 2, cp_ur = Fin 0\<rparr>]"
    by (simp add: co d collapse_spec_def)
  have se: "squaredError exact_fp \<lparr>cp_xr = Fin 0, cp_ur = Fin 1\<rparr> = Fin 0"
    by (simp add: squaredError_def ideal_profile_def jsub_def)
  have A: "\<exists>cs. cs \<in> set (results (computeAll exact_fp [st_demo] g_demo))
       \<and> cs_rHalf cs = Fin 1 \<and> (0 :: real) < 1 \<and> cs_Uc cs = Fin 2
       \<and> cs_collapse cs = [\<lparr>cp_xr = Fin 0, cp_ur = Fin 1\<rparr>, \<lparr>cp_xr = Fin 1, cp_ur = Fin (1 / 2)\<rparr>,
                            \<lparr>cp_xr = Fin 2, cp_ur = Fin 0\<rparr>]
       \<and> cs_rmse cs = rmse_spec exact_fp
                         [\<lparr>cp_xr = Fin 0, cp_ur = Fin 1\<rparr>, \<lparr>cp_xr = Fin 1, cp_ur = Fin (1 / 2)\<rparr>,
                          \<lparr>cp_xr = Fin 2, cp_ur = Fin 0\<rparr>]
       \<and> squaredError exact_fp \<lparr>cp_xr = Fin 0, cp_ur = Fin 1\<rparr> = Fin 0"
    using cs h d(3) co' rm se by (intro exI [of _ cs]) simp
  from single_result [OF rows_zero(1) [OF exact_at_exact_fp sqrt_exact_examples(2)]] obtain cz
    where cz: "cz \<in> set (results (computeAll exact_fp [st_zero] g_demo))"
      and sz: "computeStation exact_fp (Fin 2) (usedD exact_fp g_demo) False st_zero = Some cz"
    by blast
  note z = zero_station [OF sz]
  from collapse_rmse [OF cz] z(4) have "cs_collapse cz = [] \<and> cs_rmse cz = NaN" by simp
  with cz z(4) have B: "\<exists>cs. cs \<in> set (results (computeAll exact_fp [st_zero] g_demo))
       \<and> cs_rHalf cs = NaN \<and> cs_collapse cs = [] \<and> cs_rmse cs = NaN"
    by (intro exI [of _ cz]) simp
  from A B show ?thesis by (rule conjI)
qed


end
